theory Spec2Isabelle
  imports Main
begin

section \<open>Data model of the Drafting Table (ShotGenerator.tsx)\<close>

text \<open>
  The component keeps a list of pending pairs as React state and reads a project that
  its parent owns. A handler is modelled as a function from the state it finds to the
  state it leaves. Where the source calls \<^verbatim>\<open>crypto.randomUUID()\<close>, the model takes the
  identifiers the browser hands out as an argument: a single \<open>uid\<close> for a handler that
  asks once, a sequence \<open>uuid :: nat \<Rightarrow> string\<close> (the \<open>n\<close>-th identifier handed out
  during the handler) for one that asks in a loop.
\<close>

datatype Status = Idle | Processing | Completed | Error

text \<open>\<^verbatim>\<open>interface PendingPair { id; source: string | null; target: string | null; status }\<close>\<close>

record PendingPair =
  id_pair :: string
  source :: "string option"
  target :: "string option"
  status :: Status

text \<open>
  JavaScript truthiness of a \<^verbatim>\<open>string | null\<close> (also of a possibly undefined string):
  \<^verbatim>\<open>null\<close>, \<^verbatim>\<open>undefined\<close> and the empty string are falsy.
\<close>

fun truthy :: "string option \<Rightarrow> bool" where
  "truthy None = False"
| "truthy (Some s) = (s \<noteq> [])"

text \<open>The object literal \<^verbatim>\<open>{ id: crypto.randomUUID(), source, target, status: 'idle' }\<close>.\<close>

definition newPair :: "string \<Rightarrow> string option \<Rightarrow> string option \<Rightarrow> PendingPair" where
  "newPair uid src tgt = \<lparr>id_pair = uid, source = src, target = tgt, status = Idle\<rparr>"

text \<open>
  A browser \<^verbatim>\<open>File\<close>: its MIME type, and the data URL that
  \<^verbatim>\<open>FileReader.readAsDataURL\<close> produces for it.
\<close>

record File =
  file_type :: string
  dataURL :: string

definition startsWith :: "string \<Rightarrow> string \<Rightarrow> bool" where
  "startsWith s p = (take (length p) s = p)"

definition isImage :: "File \<Rightarrow> bool" where
  "isImage f = startsWith (file_type f) ''image/''"

definition processFile :: "File \<Rightarrow> string" where
  "processFile f = dataURL f"

datatype slot = Source | Target

text \<open>The spread \<^verbatim>\<open>{ ...p, [type]: base64 }\<close> and the assignment \<^verbatim>\<open>p[type] = img\<close>.\<close>

fun setSlot :: "slot \<Rightarrow> string \<Rightarrow> PendingPair \<Rightarrow> PendingPair" where
  "setSlot Source img p = p\<lparr>source := Some img\<rparr>"
| "setSlot Target img p = p\<lparr>target := Some img\<rparr>"

section \<open>Pending-pair store\<close>



definition handleImageUpload ::
  "string \<Rightarrow> File \<Rightarrow> slot \<Rightarrow> PendingPair list \<Rightarrow> PendingPair list" where
  "handleImageUpload i file ty prev =
     (if \<not> isImage file then prev
      else let base64 = processFile file
           in map (\<lambda>p. if id_pair p = i then setSlot ty base64 p else p) prev)"

text \<open>\<^verbatim>\<open>handleDropSlot\<close>: the first dropped file, if there is one, goes to the slot.\<close>

definition handleDropSlot ::
  "File list \<Rightarrow> string \<Rightarrow> slot \<Rightarrow> PendingPair list \<Rightarrow> PendingPair list" where
  "handleDropSlot files i ty prev =
     (case files of [] \<Rightarrow> prev | file # _ \<Rightarrow> handleImageUpload i file ty prev)"

text \<open>The status transition \<^verbatim>\<open>prev.map(p => p.id === pair.id ? { ...p, status } : p)\<close>.\<close>

definition setStatus :: "string \<Rightarrow> Status \<Rightarrow> PendingPair list \<Rightarrow> PendingPair list" where
  "setStatus i s prev = map (\<lambda>p. if id_pair p = i then p\<lparr>status := s\<rparr> else p) prev"

text \<open>The purge that ends a batch.\<close>

definition purgeCompleted :: "string \<Rightarrow> PendingPair list \<Rightarrow> PendingPair list" where
  "purgeCompleted uid prev =
     (let filtered = filter (\<lambda>p. status p \<noteq> Completed) prev
      in if length filtered > 0 then filtered else [newPair uid None None])"

section \<open>Batch drop: the three placement policies\<close>

text \<open>
  The column policies assign to a field of a pair object that the previous list also
  holds (\<^verbatim>\<open>currentPairs[i].source = img\<close> after the shallow copy \<^verbatim>\<open>[...prev]\<close>), so
  this handler is modelled over an explicit store: a pair object lives at an address,
  here its index in the store, and an array is a list of addresses. Allocating an object
  appends it to the store.
\<close>

type_synonym ref = nat
type_synonym store = "PendingPair list"

datatype dropType = Alpha | Beta | Mixed

text \<open>The pairs a list of addresses denotes in a store.\<close>

fun pairsOf :: "store \<times> ref list \<Rightarrow> PendingPair list" where
  "pairsOf (h, rs) = map (\<lambda>r. h ! r) rs"

text \<open>The pair pushed for an overflowing image: only the targeted field is set.\<close>

fun overflowPair :: "slot \<Rightarrow> string \<Rightarrow> string \<Rightarrow> PendingPair" where
  "overflowPair Source uid img = newPair uid (Some img) None"
| "overflowPair Target uid img = newPair uid None (Some img)"

text \<open>
  The body of \<^verbatim>\<open>base64Files.forEach((img, i) => ...)\<close>. The state is the number of
  identifiers drawn so far, the store, and the array \<^verbatim>\<open>currentPairs\<close>. An array element
  is an object and so truthy: \<^verbatim>\<open>if (currentPairs[i])\<close> asks whether index \<open>i\<close> exists.
\<close>

fun columnStep ::
  "slot \<Rightarrow> (nat \<Rightarrow> string) \<Rightarrow> string \<Rightarrow> nat \<Rightarrow> nat \<times> store \<times> ref list \<Rightarrow> nat \<times> store \<times> ref list" where
  "columnStep ty uuid img i (n, h, currentPairs) =
     (if i < length currentPairs
      then (n, h[currentPairs ! i := setSlot ty img (h ! (currentPairs ! i))], currentPairs)
      else (Suc n, h @ [overflowPair ty (uuid n) img], currentPairs @ [length h]))"

fun forEach :: "('a \<Rightarrow> nat \<Rightarrow> 's \<Rightarrow> 's) \<Rightarrow> 'a list \<Rightarrow> nat \<Rightarrow> 's \<Rightarrow> 's" where
  "forEach f [] i st = st"
| "forEach f (x # xs) i st = forEach f xs (Suc i) (f x i st)"

text \<open>
  The loop \<^verbatim>\<open>for (let i = 0; i < base64Files.length; i += 2)\<close> of the mixed policy:
  \<^verbatim>\<open>base64Files[i+1] || null\<close> is \<^verbatim>\<open>null\<close> past the end and for an empty string.
\<close>

fun pairUp :: "(nat \<Rightarrow> string) \<Rightarrow> nat \<Rightarrow> string list \<Rightarrow> PendingPair list" where
  "pairUp uuid n [] = []"
| "pairUp uuid n [a] = [newPair (uuid n) (Some a) None]"
| "pairUp uuid n (a # b # rest) =
     newPair (uuid n) (Some a) (if b \<noteq> [] then Some b else None) # pairUp uuid (Suc n) rest"

text \<open>The updater passed to \<^verbatim>\<open>setPendingPairs\<close>, on the store and the previous array.\<close>

fun batchUpdate ::
  "(nat \<Rightarrow> string) \<Rightarrow> string list \<Rightarrow> dropType \<Rightarrow> store \<times> ref list \<Rightarrow> store \<times> ref list" where
  "batchUpdate uuid base64Files Alpha (h, prev) =
     snd (forEach (columnStep Source uuid) base64Files 0 (0, h, prev))"
| "batchUpdate uuid base64Files Beta (h, prev) =
     snd (forEach (columnStep Target uuid) base64Files 0 (0, h, prev))"
| "batchUpdate uuid base64Files Mixed (h, prev) =
     (let newPairs = pairUp uuid 0 base64Files
      in (h @ newPairs,
          filter (\<lambda>r. truthy (source (h ! r)) \<or> truthy (target (h ! r))) prev
            @ [length h ..< length h + length newPairs]))"

definition handleBatchDrop ::
  "(nat \<Rightarrow> string) \<Rightarrow> File list \<Rightarrow> dropType \<Rightarrow> store \<times> ref list \<Rightarrow> store \<times> ref list" where
  "handleBatchDrop uuid dropped ty st =
     (let files = filter isImage dropped
      in if length files = 0 then st
         else batchUpdate uuid (map processFile files) ty st)"

text \<open>
  A store and an array fit together when every address of the array is allocated and no
  object occurs twice in the array.
\<close>

definition wfStore :: "store \<times> ref list \<Rightarrow> bool" where
  "wfStore st = (case st of (h, rs) \<Rightarrow> distinct rs \<and> list_all (\<lambda>r. r < length h) rs)"

text \<open>The column a slot belongs to.\<close>

fun column :: "slot \<Rightarrow> dropType" where
  "column Source = Alpha"
| "column Target = Beta"

text \<open>
  The same loop body on the pairs themselves; the store version is shown to compute it
  on the pairs its array denotes.
\<close>

fun columnStepV ::
  "slot \<Rightarrow> (nat \<Rightarrow> string) \<Rightarrow> string \<Rightarrow> nat \<Rightarrow> nat \<times> PendingPair list \<Rightarrow> nat \<times> PendingPair list" where
  "columnStepV ty uuid img i (n, ps) =
     (if i < length ps then (n, ps[i := setSlot ty img (ps ! i)])
      else (Suc n, ps @ [overflowPair ty (uuid n) img]))"

section \<open>Batch processor\<close>

text \<open>
  Modelled from the spec: the types \<^verbatim>\<open>Shot\<close> and \<^verbatim>\<open>Project\<close> are imported from
  \<^verbatim>\<open>../types\<close>, which is not among the sources. A shot has the fields the object
  literal in \<^verbatim>\<open>processBatch\<close> gives it; a project has a starting sequence number and
  the collection of its shots. A sequence number is a JavaScript number with an integer
  value; it is modelled by that integer, and the arithmetic on it rounds as below.
\<close>

record Shot =
  id_shot :: string
  sequenceOrder :: int
  topic :: string
  visualAnalysis :: "string option"
  actionPrompt :: "string option"
  sourceImage :: string
  targetImage :: string
  model :: string
  aspectRatio :: string
  resolution :: string

record Project =
  startingSequenceNumber :: int
  shots :: "Shot list"

text \<open>The request handed to \<^verbatim>\<open>ai.models.generateContent\<close>.\<close>

datatype schemaType = OBJECT | STRING

datatype part = Text string | InlineData "string option" string

record schema =
  schema_type :: schemaType
  properties :: "(string \<times> schemaType) list"
  required :: "string list"

record request =
  request_model :: string
  contents :: "part list"
  responseMimeType :: string
  responseSchema :: schema

text \<open>
  \<^verbatim>\<open>s.split(',')[1]\<close>: the text between the first and the second comma, undefined when
  \<open>s\<close> has no comma.
\<close>

definition splitComma1 :: "string \<Rightarrow> string option" where
  "splitComma1 s =
     (let rest = dropWhile (\<lambda>c. c \<noteq> CHR '','') s
      in if rest = [] then None else Some (takeWhile (\<lambda>c. c \<noteq> CHR '','') (tl rest)))"

definition buildRequest :: "string \<Rightarrow> string \<Rightarrow> string \<Rightarrow> request" where
  "buildRequest styleDirective src tgt =
     (let systemInstruction =
            ''Cinematic Sequence Analyzer. Style: '' @ styleDirective
              @ ''. bridge frames with logical, high-fidelity motion. Output JSON.''
      in \<lparr>request_model = ''gemini-3-flash-preview'',
          contents = [Text systemInstruction,
                      InlineData (splitComma1 src) ''image/png'',
                      InlineData (splitComma1 tgt) ''image/png''],
          responseMimeType = ''application/json'',
          responseSchema =
            \<lparr>schema_type = OBJECT,
             properties = [(''topic'', STRING), (''analysis'', STRING), (''prompt'', STRING)],
             required = [''topic'', ''analysis'', ''prompt'']\<rparr>\<rparr>)"

text \<open>
  What the \<^verbatim>\<open>try\<close> block can throw: a \<^verbatim>\<open>TypeError\<close> (a method called on \<^verbatim>\<open>null\<close>), or
  whatever the service call or \<^verbatim>\<open>JSON.parse\<close> throws.
\<close>

datatype exn = TypeError | Thrown string

text \<open>
  What \<^verbatim>\<open>JSON.parse\<close> returns: \<^verbatim>\<open>null\<close>, on which reading a field throws a
  \<^verbatim>\<open>TypeError\<close>, or any other value, read through the three fields the code reads;
  \<open>None\<close> is a field that is absent.
\<close>

record analysisResult =
  result_topic :: "string option"
  result_analysis :: "string option"
  result_prompt :: "string option"

datatype json = JNull | JValue analysisResult

text \<open>
  The collaborators of a batch. \<open>generateContent k req\<close> is what the service call made
  for the \<open>k\<close>-th pair of the batch does: it throws, or answers with \<^verbatim>\<open>response.text\<close>
  (possibly undefined). \<open>JSON_parse\<close> throws or returns the parsed value.
  \<open>onApiError\<close> says whether the optional callback was passed.
\<close>

record env =
  generateContent :: "nat \<Rightarrow> request \<Rightarrow> exn + string option"
  JSON_parse :: "string \<Rightarrow> exn + json"
  randomUUID :: "nat \<Rightarrow> string"
  styleDirective :: string
  onApiError :: bool

text \<open>The callbacks invoked and the service calls made, in order.\<close>

datatype event = SetIsStudioBusy bool | GenerateContent request | OnApiError exn string

record world =
  pendingPairs :: "PendingPair list"
  project :: Project
  events :: "event list"

text \<open>JavaScript \<^verbatim>\<open>x || d\<close> on a possibly absent string.\<close>

fun orElse :: "string option \<Rightarrow> string \<Rightarrow> string" where
  "orElse None d = d"
| "orElse (Some s) d = (if s \<noteq> [] then s else d)"

text \<open>
  The request for a pair; \<^verbatim>\<open>pair.source!.split\<close> on a \<^verbatim>\<open>null\<close> image throws before
  any call is made.
\<close>

definition requestFor :: "string \<Rightarrow> PendingPair \<Rightarrow> exn + request" where
  "requestFor style pair =
     (case source pair of
        None \<Rightarrow> Inl TypeError
      | Some src \<Rightarrow>
          (case target pair of
             None \<Rightarrow> Inl TypeError
           | Some tgt \<Rightarrow> Inr (buildRequest style src tgt)))"

text \<open>The \<^verbatim>\<open>try\<close> block up to \<^verbatim>\<open>const result = JSON.parse(response.text || "{}")\<close>.\<close>

definition analyse :: "env \<Rightarrow> nat \<Rightarrow> PendingPair \<Rightarrow> exn + json" where
  "analyse env k pair =
     (case requestFor (styleDirective env) pair of
        Inl err \<Rightarrow> Inl err
      | Inr req \<Rightarrow>
          (case generateContent env k req of
             Inl err \<Rightarrow> Inl err
           | Inr text \<Rightarrow> JSON_parse env (orElse text ''{}'')))"

definition callsFor :: "env \<Rightarrow> PendingPair \<Rightarrow> event list" where
  "callsFor env pair =
     (case requestFor (styleDirective env) pair of
        Inl err \<Rightarrow> []
      | Inr req \<Rightarrow> [GenerateContent req])"

text \<open>
  JavaScript numbers are doubles. An integer of magnitude up to \<open>2 ^ 53\<close> is a double;
  the sum of two doubles is the exact sum rounded to the nearest double, and to the one
  with the even significand when two are equally near. \<open>lostBits m\<close> is the number of
  low bits of \<open>m\<close> that do not fit the 53-bit significand. (Sums here add a length or
  \<open>1\<close> to a double and never round to infinity.)
\<close>

function lostBits :: "int \<Rightarrow> nat" where
  "lostBits m = (if m < 2 ^ 53 then 0 else Suc (lostBits (m div 2)))"
  by pat_completeness auto
termination
  by (relation "measure nat") auto

declare lostBits.simps [simp del]

definition roundMagnitude :: "int \<Rightarrow> int" where
  "roundMagnitude m =
     (let q = 2 ^ lostBits m; s = m div q; r = m mod q
      in if 2 * r < q then s * q
         else if q < 2 * r then (s + 1) * q
         else if even s then s * q else (s + 1) * q)"

definition toDouble :: "int \<Rightarrow> int" where
  "toDouble x = (if x < 0 then - roundMagnitude (- x) else roundMagnitude x)"

definition jsAdd :: "int \<Rightarrow> int \<Rightarrow> int" where
  "jsAdd a b = toDouble (a + b)"

definition newShot :: "string \<Rightarrow> int \<Rightarrow> analysisResult \<Rightarrow> PendingPair \<Rightarrow> Shot" where
  "newShot uid currentSequenceCount result pair =
     \<lparr>id_shot = uid,
      sequenceOrder = currentSequenceCount,
      topic = orElse (result_topic result) ''Sequence Segment'',
      visualAnalysis = result_analysis result,
      actionPrompt = result_prompt result,
      sourceImage = orElse (source pair) [],
      targetImage = orElse (target pair) [],
      model = ''veo-3.1-generate-preview'',
      aspectRatio = ''16:9'',
      resolution = ''1080p''\<rparr>"

text \<open>
  The \<^verbatim>\<open>catch\<close> block: the pair is marked and the error reported, when the callback
  was passed.
\<close>

definition catchBlock :: "env \<Rightarrow> PendingPair \<Rightarrow> exn \<Rightarrow> world \<Rightarrow> world" where
  "catchBlock env pair err w =
     w\<lparr>pendingPairs := setStatus (id_pair pair) Error (pendingPairs w),
       events := events w @ (if onApiError env then [OnApiError err ''Analysis''] else [])\<rparr>"

text \<open>
  One turn of \<^verbatim>\<open>for (const pair of validPairs)\<close>, for the \<open>k\<close>-th pair. The state is
  the world, \<^verbatim>\<open>currentSequenceCount\<close>, and the number of identifiers drawn so far.
  The object literal of the new shot evaluates \<^verbatim>\<open>crypto.randomUUID()\<close> and
  \<^verbatim>\<open>currentSequenceCount++\<close> before it reads \<^verbatim>\<open>result.topic\<close>: when the parsed value is
  \<^verbatim>\<open>null\<close> that read throws after an identifier was drawn and the counter advanced.
  A batch is modelled running alone: no other handler runs while it awaits, so every
  updater receives the state the previous updater of the batch left. The callbacks
  \<^verbatim>\<open>onUpdateProject\<close>, \<^verbatim>\<open>setPendingPairs\<close> and \<^verbatim>\<open>onApiError\<close> are taken not to throw.
\<close>

fun processPair :: "env \<Rightarrow> PendingPair \<Rightarrow> nat \<Rightarrow> world \<times> int \<times> nat \<Rightarrow> world \<times> int \<times> nat" where
  "processPair env pair k (w, currentSequenceCount, n) =
     (let w1 = w\<lparr>pendingPairs := setStatus (id_pair pair) Processing (pendingPairs w)\<rparr>;
          w2 = w1\<lparr>events := events w1 @ callsFor env pair\<rparr>
      in case analyse env k pair of
           Inl err \<Rightarrow> (catchBlock env pair err w2, currentSequenceCount, n)
         | Inr JNull \<Rightarrow>
             (catchBlock env pair TypeError w2, jsAdd currentSequenceCount 1, Suc n)
         | Inr (JValue result) \<Rightarrow>
             (w2\<lparr>project := (project w2)\<lparr>shots := shots (project w2)
                    @ [newShot (randomUUID env n) currentSequenceCount result pair]\<rparr>,
                 pendingPairs := setStatus (id_pair pair) Completed (pendingPairs w2)\<rparr>,
              jsAdd currentSequenceCount 1, Suc n))"

definition validPairs :: "PendingPair list \<Rightarrow> PendingPair list" where
  "validPairs ps =
     filter (\<lambda>p. truthy (source p) \<and> truthy (target p) \<and> status p \<noteq> Completed) ps"

text \<open>\<^verbatim>\<open>(project.startingSequenceNumber || 1) + project.shots.length\<close>: zero is falsy.\<close>

definition firstSequenceNumber :: "Project \<Rightarrow> int" where
  "firstSequenceNumber p =
     jsAdd (if startingSequenceNumber p = 0 then 1 else startingSequenceNumber p)
       (int (length (shots p)))"

definition processBatch :: "env \<Rightarrow> world \<Rightarrow> world" where
  "processBatch env w =
     (let valid = validPairs (pendingPairs w)
      in if length valid = 0 then w
         else
           (case forEach (processPair env) valid 0
                   (w\<lparr>events := events w @ [SetIsStudioBusy True]\<rparr>,
                    firstSequenceNumber (project w), 0) of
              (w2, currentSequenceCount, n) \<Rightarrow>
                w2\<lparr>events := events w2 @ [SetIsStudioBusy False],
                   pendingPairs := purgeCompleted (randomUUID env n) (pendingPairs w2)\<rparr>))"

section \<open>Notions used to state the properties\<close>

text \<open>A pair with at least one of its two images set.\<close>

definition hasImage :: "PendingPair \<Rightarrow> bool" where
  "hasImage p = (source p \<noteq> None \<or> target p \<noteq> None)"

text \<open>
  Images come from \<^verbatim>\<open>FileReader.readAsDataURL\<close>, whose result starts with
  \<^verbatim>\<open>data:\<close> and is never the empty string. A list of pairs is well formed when no image
  slot holds the empty string; then truthy means present.
\<close>

definition imagesNonEmpty :: "PendingPair list \<Rightarrow> bool" where
  "imagesNonEmpty ps = list_all (\<lambda>p. source p \<noteq> Some [] \<and> target p \<noteq> Some []) ps"

text \<open>
  The outcome of the whole \<^verbatim>\<open>try\<close> block for the \<open>k\<close>-th pair: \<open>Inr\<close> when nothing
  throws, which is when a shot is made from the parsed result.
\<close>

definition tryBlock :: "env \<Rightarrow> nat \<Rightarrow> PendingPair \<Rightarrow> exn + analysisResult" where
  "tryBlock env k pair =
     (case analyse env k pair of
        Inl err \<Rightarrow> Inl err
      | Inr JNull \<Rightarrow> Inl TypeError
      | Inr (JValue result) \<Rightarrow> Inr result)"

text \<open>
  The outcomes for the pairs of a batch, in processing order. The pair at position \<open>j\<close>
  is the \<open>(k + j)\<close>-th of the batch.
\<close>

definition outcomes :: "env \<Rightarrow> nat \<Rightarrow> PendingPair list \<Rightarrow> (exn + analysisResult) list" where
  "outcomes env k ps = map (\<lambda>(j, p). tryBlock env j p) (enumerate k ps)"

definition succeeded :: "env \<Rightarrow> nat \<Rightarrow> PendingPair list \<Rightarrow> PendingPair list" where
  "succeeded env k ps = map snd (filter (\<lambda>(j, p). \<not> isl (tryBlock env j p)) (enumerate k ps))"

fun lefts :: "('a + 'b) list \<Rightarrow> 'a list" where
  "lefts [] = []"
| "lefts (Inl a # xs) = a # lefts xs"
| "lefts (Inr b # xs) = lefts xs"

fun rights :: "('a + 'b) list \<Rightarrow> 'b list" where
  "rights [] = []"
| "rights (Inl a # xs) = rights xs"
| "rights (Inr b # xs) = b # rights xs"

fun isReport :: "event \<Rightarrow> bool" where
  "isReport (OnApiError err context) = True"
| "isReport ev = False"

fun isCall :: "event \<Rightarrow> bool" where
  "isCall (GenerateContent req) = True"
| "isCall ev = False"

text \<open>The requests of the service calls in a list of events, in order.\<close>

fun requestsOf :: "event list \<Rightarrow> request list" where
  "requestsOf [] = []"
| "requestsOf (GenerateContent req # evs) = req # requestsOf evs"
| "requestsOf (ev # evs) = requestsOf evs"

text \<open>
  What the loop of \<^verbatim>\<open>processBatch\<close> adds to each part of the state, as functions of the
  batch: the shots appended, the counter and the number of identifiers drawn at the end,
  the events logged, the statuses set. They are shown below to describe the loop.
\<close>

fun batchShots :: "env \<Rightarrow> PendingPair list \<Rightarrow> nat \<Rightarrow> int \<Rightarrow> nat \<Rightarrow> Shot list" where
  "batchShots env [] k c n = []"
| "batchShots env (p # ps) k c n =
     (case analyse env k p of
        Inl err \<Rightarrow> batchShots env ps (Suc k) c n
      | Inr JNull \<Rightarrow> batchShots env ps (Suc k) (jsAdd c 1) (Suc n)
      | Inr (JValue result) \<Rightarrow>
          newShot (randomUUID env n) c result p # batchShots env ps (Suc k) (jsAdd c 1) (Suc n))"

fun batchCounters :: "env \<Rightarrow> PendingPair list \<Rightarrow> nat \<Rightarrow> int \<times> nat \<Rightarrow> int \<times> nat" where
  "batchCounters env [] k cn = cn"
| "batchCounters env (p # ps) k (c, n) =
     batchCounters env ps (Suc k)
       (if isl (analyse env k p) then (c, n) else (jsAdd c 1, Suc n))"

fun batchEvents :: "env \<Rightarrow> PendingPair list \<Rightarrow> nat \<Rightarrow> event list" where
  "batchEvents env [] k = []"
| "batchEvents env (p # ps) k =
     callsFor env p
     @ (case tryBlock env k p of
          Inr result \<Rightarrow> []
        | Inl err \<Rightarrow> if onApiError env then [OnApiError err ''Analysis''] else [])
     @ batchEvents env ps (Suc k)"

fun verdict :: "exn + analysisResult \<Rightarrow> Status" where
  "verdict (Inr result) = Completed"
| "verdict (Inl err) = Error"

fun batchStatus :: "env \<Rightarrow> PendingPair list \<Rightarrow> nat \<Rightarrow> PendingPair list \<Rightarrow> PendingPair list" where
  "batchStatus env [] k qs = qs"
| "batchStatus env (p # ps) k qs =
     batchStatus env ps (Suc k) (setStatus (id_pair p) (verdict (tryBlock env k p)) qs)"

fun finalPair :: "env \<Rightarrow> PendingPair list \<Rightarrow> nat \<Rightarrow> PendingPair \<Rightarrow> PendingPair" where
  "finalPair env [] k q = q"
| "finalPair env (p # ps) k q =
     finalPair env ps (Suc k)
       (if id_pair q = id_pair p then q\<lparr>status := verdict (tryBlock env k p)\<rparr> else q)"

subsection \<open>Concrete inputs\<close>

definition examplePng :: File where
  "examplePng = \<lparr>file_type = ''image/png'', dataURL = ''data:image/png;base64,AAAA''\<rparr>"

definition exampleJpg :: File where
  "exampleJpg = \<lparr>file_type = ''image/jpeg'', dataURL = ''data:image/jpeg;base64,BBBB''\<rparr>"

definition exampleTxt :: File where
  "exampleTxt = \<lparr>file_type = ''text/plain'', dataURL = ''data:text/plain;base64,QQ==''\<rparr>"

text \<open>The state the panel starts in: one empty pair.\<close>

definition initialPairs :: "PendingPair list" where
  "initialPairs = [newPair ''a'' None None]"

definition initialStore :: "store \<times> ref list" where
  "initialStore = (initialPairs, [0])"

definition exampleUUID :: "nat \<Rightarrow> string" where
  "exampleUUID n = ''u'' @ replicate n CHR ''x''"

text \<open>
  A list of three pairs: two with both images, one with a source only. The service
  answers the first call with an object that has no topic and refuses the second.
\<close>

definition examplePairs :: "PendingPair list" where
  "examplePairs =
     [\<lparr>id_pair = ''a'', source = Some ''data:image/png;base64,AAAA'',
       target = Some ''data:image/png;base64,BBBB'', status = Idle\<rparr>,
      \<lparr>id_pair = ''b'', source = Some ''data:image/png;base64,CCCC'',
       target = Some ''data:image/png;base64,DDDD'', status = Idle\<rparr>,
      \<lparr>id_pair = ''c'', source = Some ''data:image/png;base64,EEEE'',
       target = None, status = Idle\<rparr>]"

definition exampleStore :: "store \<times> ref list" where
  "exampleStore = (examplePairs, [0, 1, 2])"

definition exampleResult :: analysisResult where
  "exampleResult =
     \<lparr>result_topic = None, result_analysis = Some ''two frames'', result_prompt = Some ''pan left''\<rparr>"

definition exampleEnv :: env where
  "exampleEnv =
     \<lparr>generateContent = (\<lambda>k req. if k = 1 then Inl (Thrown ''503'') else Inr None),
      JSON_parse = (\<lambda>s. if s = ''{}'' then Inr (JValue exampleResult)
                        else if s = ''null'' then Inr JNull
                        else Inl (Thrown ''SyntaxError'')),
      randomUUID = exampleUUID,
      styleDirective = ''noir'',
      onApiError = True\<rparr>"

definition exampleWorld :: "int \<Rightarrow> Shot list \<Rightarrow> world" where
  "exampleWorld start existing =
     \<lparr>pendingPairs = examplePairs,
      project = \<lparr>startingSequenceNumber = start, shots = existing\<rparr>,
      events = []\<rparr>"

definition exampleShot :: "int \<Rightarrow> Shot" where
  "exampleShot n =
     \<lparr>id_shot = ''s'', sequenceOrder = n, topic = ''t'', visualAnalysis = None,
      actionPrompt = None, sourceImage = ''data:,x'', targetImage = ''data:,y'',
      model = ''veo-3.1-generate-preview'', aspectRatio = ''16:9'', resolution = ''1080p''\<rparr>"

text \<open>The same service when every call is refused.\<close>

definition failingEnv :: env where
  "failingEnv = exampleEnv\<lparr>generateContent := (\<lambda>k req. Inl (Thrown ''offline''))\<rparr>"

text \<open>The same service without the error callback.\<close>

definition silentEnv :: env where
  "silentEnv = exampleEnv\<lparr>onApiError := False\<rparr>"

text \<open>A service whose first answer is the text \<^verbatim>\<open>null\<close> and whose later answers are empty.\<close>

definition nullFirstEnv :: env where
  "nullFirstEnv =
     exampleEnv\<lparr>generateContent := (\<lambda>k req. if k = 0 then Inr (Some ''null'') else Inr None)\<rparr>"

text \<open>A service whose every answer is empty, so that every call succeeds.\<close>

definition steadyEnv :: env where
  "steadyEnv = exampleEnv\<lparr>generateContent := (\<lambda>k req. Inr None)\<rparr>"

text \<open>A world whose pending list is the initial one: no pair qualifies.\<close>

definition idleWorld :: world where
  "idleWorld =
     \<lparr>pendingPairs = initialPairs,
      project = \<lparr>startingSequenceNumber = 5, shots = []\<rparr>,
      events = []\<rparr>"

section \<open>Batch drop: properties\<close>

lemma forEach_snoc: "forEach f (xs @ [x]) i st = f x (i + length xs) (forEach f xs i st)"
  by (induction xs arbitrary: i st) auto

lemma map_nth_update_distinct:
  "distinct rs \<Longrightarrow> i < length rs \<Longrightarrow> list_all (\<lambda>r. r < length h) rs \<Longrightarrow>
   map (\<lambda>r. h[rs ! i := v] ! r) rs = (map (\<lambda>r. h ! r) rs)[i := v]"
  by (auto simp: list_eq_iff_nth_eq nth_list_update nth_eq_iff_index_eq list_all_length)

lemma map_nth_append_store:
  "list_all (\<lambda>r. r < length h) rs \<Longrightarrow> map (\<lambda>r. (h @ xs) ! r) rs = map (\<lambda>r. h ! r) rs"
  by (auto simp: list_all_iff nth_append)

text \<open>One turn of the column loop on the store does to the denoted pairs what
  \<open>columnStepV\<close> does, and keeps store and array fitting together.\<close>

lemma columnStep_refines:
  assumes "wfStore (h, cur)" and "columnStep ty uuid img i (n, h, cur) = (n', h', cur')"
  shows "wfStore (h', cur') \<and>
         columnStepV ty uuid img i (n, pairsOf (h, cur)) = (n', pairsOf (h', cur'))"
  using assms
  by (auto simp: wfStore_def map_nth_update_distinct map_nth_append_store list_all_iff
      less_Suc_eq split: if_splits)

lemma forEach_column_refines:
  "wfStore (h, cur) \<Longrightarrow> forEach (columnStep ty uuid) imgs i (n, h, cur) = (n', h', cur') \<Longrightarrow>
   wfStore (h', cur') \<and>
   forEach (columnStepV ty uuid) imgs i (n, pairsOf (h, cur)) = (n', pairsOf (h', cur'))"
proof (induction imgs arbitrary: i n h cur)
  case Nil
  then show ?case by simp
next
  case (Cons img imgs)
  obtain n1 h1 cur1 where s: "columnStep ty uuid img i (n, h, cur) = (n1, h1, cur1)"
    using prod_cases3 by blast
  from columnStep_refines[OF Cons.prems(1) s]
  have w: "wfStore (h1, cur1)"
    and v: "columnStepV ty uuid img i (n, pairsOf (h, cur)) = (n1, pairsOf (h1, cur1))"
    by simp_all
  from Cons.prems(2) s
  have "forEach (columnStep ty uuid) imgs (Suc i) (n1, h1, cur1) = (n', h', cur')"
    by simp
  from Cons.IH[OF w this] v show ?case by simp
qed

text \<open>The pairs after the column loop, position by position.\<close>

lemma forEach_columnV:
  "forEach (columnStepV ty uuid) imgs 0 (0, ps) = (n', ps') \<Longrightarrow>
   n' = length imgs - length ps \<and> length ps' = max (length imgs) (length ps) \<and>
   (\<forall>j < length ps'. ps' ! j =
      (if j < length ps
       then (if j < length imgs then setSlot ty (imgs ! j) (ps ! j) else ps ! j)
       else overflowPair ty (uuid (j - length ps)) (imgs ! j)))"
proof (induction imgs arbitrary: n' ps' rule: rev_induct)
  case Nil
  then show ?case by simp
next
  case (snoc x xs)
  obtain n1 ps1 where s: "forEach (columnStepV ty uuid) xs 0 (0, ps) = (n1, ps1)"
    by fastforce
  note ih = snoc.IH[OF s]
  from snoc.prems s have st: "columnStepV ty uuid x (length xs) (n1, ps1) = (n', ps')"
    by (simp add: forEach_snoc)
  show ?case
  proof (cases "length xs < length ps1")
    case True
    with st ih show ?thesis
      by (auto simp: nth_list_update nth_append less_Suc_eq split: if_splits)
  next
    case False
    with st ih show ?thesis
      by (auto simp: nth_list_update nth_append less_Suc_eq split: if_splits)
  qed
qed

lemma batchUpdate_column:
  "batchUpdate uuid imgs (column sl) (h, prev) =
     snd (forEach (columnStep sl uuid) imgs 0 (0, h, prev))"
  by (cases sl) simp_all

lemma handleBatchDrop_column:
  "handleBatchDrop uuid dropped (column sl) (h, prev) =
     snd (forEach (columnStep sl uuid) (map processFile (filter isImage dropped)) 0 (0, h, prev))"
  by (simp add: handleBatchDrop_def Let_def batchUpdate_column)

text \<open>
  Claim C3. A column batch drop (\<open>column Source\<close> is alpha, \<open>column Target\<close> is beta) of
  \<open>k\<close> image files onto \<open>m\<close> pending pairs leaves \<open>max k m\<close> pairs; each pair \<open>i\<close> below
  \<open>min k m\<close> keeps its identifier, its status and its other field and has image \<open>i\<close> in
  the targeted field (the source for alpha, the target for beta); the pairs from \<open>k\<close> on
  are untouched; and the pairs from \<open>m\<close> to \<open>k - 1\<close> are new, idle, with the targeted
  field set to their image and the other field empty.
\<close>

theorem column_batch_drop:
  fixes sl :: slot and dropped :: "File list" and uuid :: "nat \<Rightarrow> string"
    and h :: store and prev :: "ref list"
  defines "imgs \<equiv> map processFile (filter isImage dropped)"
    and "old \<equiv> pairsOf (h, prev)"
    and "res \<equiv> pairsOf (handleBatchDrop uuid dropped (column sl) (h, prev))"
  defines "k \<equiv> length imgs" and "m \<equiv> length old"
  assumes wf: "wfStore (h, prev)"
  shows "length res = max k m \<and>
         (\<forall>i. i < min k m \<longrightarrow>
            res ! i = \<lparr>id_pair = id_pair (old ! i),
                       source = (if sl = Source then Some (imgs ! i) else source (old ! i)),
                       target = (if sl = Target then Some (imgs ! i) else target (old ! i)),
                       status = status (old ! i)\<rparr>) \<and>
         (\<forall>i. k \<le> i \<and> i < m \<longrightarrow> res ! i = old ! i) \<and>
         (\<forall>i. m \<le> i \<and> i < k \<longrightarrow>
            res ! i = \<lparr>id_pair = uuid (i - m),
                       source = (if sl = Source then Some (imgs ! i) else None),
                       target = (if sl = Target then Some (imgs ! i) else None),
                       status = Idle\<rparr>)"
proof -
  obtain n' h' cur' where
    run: "forEach (columnStep sl uuid) imgs 0 (0, h, prev) = (n', h', cur')"
    using prod_cases3 by blast
  from forEach_column_refines[OF wf run]
  have v: "forEach (columnStepV sl uuid) imgs 0 (0, old) = (n', pairsOf (h', cur'))"
    by (simp add: old_def)
  have r: "res = pairsOf (h', cur')"
    using run by (simp add: res_def imgs_def handleBatchDrop_column)
  have o: "overflowPair sl u img =
             \<lparr>id_pair = u, source = (if sl = Source then Some img else None),
              target = (if sl = Target then Some img else None), status = Idle\<rparr>" for u img
    by (cases sl) (simp_all add: newPair_def)
  have s: "setSlot sl img p =
             \<lparr>id_pair = id_pair p, source = (if sl = Source then Some img else source p),
              target = (if sl = Target then Some img else target p), status = status p\<rparr>"
    for img p
    by (cases sl; cases p) simp_all
  from forEach_columnV[OF v] r show ?thesis
    unfolding k_def m_def o s by auto
qed

theorem column_batch_drop_witness:
  "wfStore initialStore \<and> wfStore exampleStore \<and>
   pairsOf (handleBatchDrop exampleUUID [examplePng, exampleTxt, exampleJpg] Alpha initialStore) =
     [\<lparr>id_pair = ''a'', source = Some ''data:image/png;base64,AAAA'', target = None,
       status = Idle\<rparr>,
      \<lparr>id_pair = ''u'', source = Some ''data:image/jpeg;base64,BBBB'', target = None,
       status = Idle\<rparr>] \<and>
   pairsOf (handleBatchDrop exampleUUID [examplePng, exampleTxt, exampleJpg] Beta exampleStore) =
     [\<lparr>id_pair = ''a'', source = Some ''data:image/png;base64,AAAA'',
       target = Some ''data:image/png;base64,AAAA'', status = Idle\<rparr>,
      \<lparr>id_pair = ''b'', source = Some ''data:image/png;base64,CCCC'',
       target = Some ''data:image/jpeg;base64,BBBB'', status = Idle\<rparr>,
      \<lparr>id_pair = ''c'', source = Some ''data:image/png;base64,EEEE'',
       target = None, status = Idle\<rparr>]"
proof -
  let ?dropped = "[examplePng, exampleTxt, exampleJpg]"
  have wf: "wfStore (initialPairs, [0])"
    by (simp add: wfStore_def initialPairs_def)
  have wfe: "wfStore (examplePairs, [0, 1, 2])"
    by (simp add: wfStore_def examplePairs_def)
  define resA where "resA = pairsOf (handleBatchDrop exampleUUID ?dropped (column Source) (initialPairs, [0]))"
  define resB where "resB = pairsOf (handleBatchDrop exampleUUID ?dropped (column Target) (examplePairs, [0, 1, 2]))"
  have f: "map processFile (filter isImage ?dropped) =
             [''data:image/png;base64,AAAA'', ''data:image/jpeg;base64,BBBB'']"
    by (simp add: isImage_def startsWith_def processFile_def examplePng_def exampleTxt_def
        exampleJpg_def)
  have two: "i < (2::nat) \<longleftrightarrow> i = 0 \<or> i = 1" for i by auto
  have three: "i < (3::nat) \<longleftrightarrow> i = 0 \<or> i = 1 \<or> i = 2" for i by auto
  note a = column_batch_drop[OF wf, where uuid = exampleUUID and dropped = "?dropped" and sl = Source,
      folded resA_def, unfolded f]
  from a have lenA: "length resA = 2" by simp
  from a have "resA ! 0 = \<lparr>id_pair = ''a'', source = Some ''data:image/png;base64,AAAA'',
       target = None, status = Idle\<rparr>"
    by (simp add: initialPairs_def newPair_def)
  moreover from a have "resA ! 1 = \<lparr>id_pair = ''u'', source = Some ''data:image/jpeg;base64,BBBB'',
       target = None, status = Idle\<rparr>"
    by (simp add: initialPairs_def newPair_def exampleUUID_def)
  ultimately have A: "resA = [\<lparr>id_pair = ''a'', source = Some ''data:image/png;base64,AAAA'',
       target = None, status = Idle\<rparr>,
      \<lparr>id_pair = ''u'', source = Some ''data:image/jpeg;base64,BBBB'', target = None,
       status = Idle\<rparr>]"
    using lenA by (auto simp: list_eq_iff_nth_eq two)
  note b = column_batch_drop[OF wfe, where uuid = exampleUUID and dropped = "?dropped" and sl = Target,
      folded resB_def, unfolded f]
  from b have lenB: "length resB = 3" by (simp add: examplePairs_def)
  from b have "resB ! 0 = \<lparr>id_pair = ''a'', source = Some ''data:image/png;base64,AAAA'',
       target = Some ''data:image/png;base64,AAAA'', status = Idle\<rparr>"
    by (simp add: examplePairs_def)
  moreover from b have "resB ! 1 = \<lparr>id_pair = ''b'', source = Some ''data:image/png;base64,CCCC'',
       target = Some ''data:image/jpeg;base64,BBBB'', status = Idle\<rparr>"
    by (simp add: examplePairs_def)
  moreover from b have "resB ! 2 = \<lparr>id_pair = ''c'', source = Some ''data:image/png;base64,EEEE'',
       target = None, status = Idle\<rparr>"
    by (simp add: examplePairs_def)
  ultimately have B: "resB = [\<lparr>id_pair = ''a'', source = Some ''data:image/png;base64,AAAA'',
       target = Some ''data:image/png;base64,AAAA'', status = Idle\<rparr>,
      \<lparr>id_pair = ''b'', source = Some ''data:image/png;base64,CCCC'',
       target = Some ''data:image/jpeg;base64,BBBB'', status = Idle\<rparr>,
      \<lparr>id_pair = ''c'', source = Some ''data:image/png;base64,EEEE'',
       target = None, status = Idle\<rparr>]"
    using lenB by (auto simp: list_eq_iff_nth_eq three)
  from A B wf wfe show ?thesis
    by (simp add: resA_def resB_def initialStore_def exampleStore_def)
qed

text \<open>
  Claim C2 says that every operation on the pending list leaves the pairs of the list it
  was given unchanged. The column policy does not: it writes into the pair object that
  the previous array holds. After an alpha drop of one image on the initial panel, the
  first pair read through the previous array, which had no source before the drop, has
  the dropped image as its source.
\<close>

theorem column_drop_mutates_previous_pair:
  "source (pairsOf (fst initialStore, snd initialStore) ! 0) = None \<and>
   source (pairsOf (fst (handleBatchDrop exampleUUID [examplePng] Alpha initialStore),
                    snd initialStore) ! 0)
     = Some ''data:image/png;base64,AAAA''"
  by (simp add: initialStore_def initialPairs_def newPair_def handleBatchDrop_def isImage_def
      startsWith_def processFile_def examplePng_def)

text \<open>The mixed policy allocates and never writes into an object of the previous array.\<close>

lemma mixed_drop_keeps_objects:
  "take (length h) (fst (handleBatchDrop uuid dropped Mixed (h, prev))) = h"
  by (simp add: handleBatchDrop_def Let_def)

lemma length_pairUp: "length (pairUp uuid n xs) = (length xs + 1) div 2"
  by (induction uuid n xs rule: pairUp.induct) simp_all

lemma nth_pairUp:
  "j < length (pairUp uuid n xs) \<Longrightarrow>
   pairUp uuid n xs ! j =
     newPair (uuid (n + j)) (Some (xs ! (2 * j)))
       (if 2 * j + 1 < length xs \<and> xs ! (2 * j + 1) \<noteq> [] then Some (xs ! (2 * j + 1))
        else None)"
proof (induction uuid n xs arbitrary: j rule: pairUp.induct)
  case (1 uuid n)
  then show ?case by simp
next
  case (2 uuid n a)
  then show ?case by simp
next
  case (3 uuid n a b rest)
  show ?case
  proof (cases j)
    case 0
    then show ?thesis by simp
  next
    case (Suc j')
    with "3.prems" have "j' < length (pairUp uuid (Suc n) rest)" by simp
    from "3.IH"[OF this] Suc show ?thesis by simp
  qed
qed

text \<open>
  Claim C4, amended. A mixed batch drop with no image file among the dropped files leaves
  the list as it is. With \<open>k \<ge> 1\<close> image files, the resulting list is the old pairs that
  have an image, in their order, followed by \<open>(k + 1) div 2\<close> new idle pairs, the \<open>j\<close>-th
  with image \<open>2j\<close> as source and image \<open>2j + 1\<close> as target, or no target when \<open>k\<close> is
  odd and the pair is the last.
\<close>

theorem mixed_batch_drop:
  fixes dropped :: "File list" and uuid :: "nat \<Rightarrow> string" and h :: store and prev :: "ref list"
  defines "imgs \<equiv> map processFile (filter isImage dropped)"
    and "old \<equiv> pairsOf (h, prev)"
    and "res \<equiv> pairsOf (handleBatchDrop uuid dropped Mixed (h, prev))"
  defines "k \<equiv> length imgs"
    and "new \<equiv> drop (length (filter hasImage old)) res"
  assumes wf: "wfStore (h, prev)"
    and ne_imgs: "list_all (\<lambda>img. img \<noteq> []) imgs"
    and ne_old: "imagesNonEmpty old"
  shows "if k = 0 then res = old
         else res = filter hasImage old @ new \<and>
              length new = (k + 1) div 2 \<and>
              (\<forall>j. j < length new \<longrightarrow>
                 new ! j = \<lparr>id_pair = uuid j, source = Some (imgs ! (2 * j)),
                            target = (if 2 * j + 1 < k then Some (imgs ! (2 * j + 1)) else None),
                            status = Idle\<rparr>)"
proof (cases "k = 0")
  case True
  then show ?thesis
    by (simp add: res_def old_def k_def imgs_def handleBatchDrop_def)
next
  case False
  let ?up = "pairUp uuid 0 imgs"
  have t: "(truthy (source p) \<or> truthy (target p)) = hasImage p" if "p \<in> set old" for p
  proof -
    from that ne_old have "source p \<noteq> Some []" "target p \<noteq> Some []"
      by (auto simp: imagesNonEmpty_def list_all_iff)
    then show ?thesis by (cases "source p"; cases "target p") (auto simp: hasImage_def)
  qed
  have b: "list_all (\<lambda>r. r < length h) prev" using wf by (simp add: wfStore_def)
  have f: "filter (\<lambda>p. truthy (source p) \<or> truthy (target p)) old = filter hasImage old"
    by (rule filter_cong[OF refl]) (rule t)
  have "pairsOf (batchUpdate uuid imgs Mixed (h, prev)) =
          filter (\<lambda>p. truthy (source p) \<or> truthy (target p)) old @ ?up"
    using b
    by (auto simp: old_def Let_def filter_map comp_def list_all_iff nth_append
        map_nth_append_store intro!: nth_equalityI)
  with f False have r: "res = filter hasImage old @ ?up"
    by (simp add: res_def k_def imgs_def handleBatchDrop_def Let_def)
  then have n: "new = ?up" by (simp add: new_def)
  have nth: "new ! j = \<lparr>id_pair = uuid j, source = Some (imgs ! (2 * j)),
                         target = (if 2 * j + 1 < k then Some (imgs ! (2 * j + 1)) else None),
                         status = Idle\<rparr>" if "j < length new" for j
  proof -
    have "2 * j + 1 < k \<Longrightarrow> imgs ! (2 * j + 1) \<noteq> []"
      using ne_imgs by (simp add: k_def list_all_length)
    with that n show ?thesis
      by (auto simp: nth_pairUp newPair_def k_def)
  qed
  from False r n nth show ?thesis
    by (simp add: length_pairUp k_def)
qed

theorem mixed_batch_drop_witness:
  "wfStore initialStore \<and> imagesNonEmpty (pairsOf initialStore) \<and>
   pairsOf (handleBatchDrop exampleUUID [examplePng, exampleJpg, exampleTxt, examplePng] Mixed
      initialStore) =
     [\<lparr>id_pair = ''u'', source = Some ''data:image/png;base64,AAAA'',
       target = Some ''data:image/jpeg;base64,BBBB'', status = Idle\<rparr>,
      \<lparr>id_pair = ''ux'', source = Some ''data:image/png;base64,AAAA'', target = None,
       status = Idle\<rparr>]"
proof -
  let ?dropped = "[examplePng, exampleJpg, exampleTxt, examplePng]"
  let ?res = "pairsOf (handleBatchDrop exampleUUID ?dropped Mixed (initialPairs, [0]))"
  have wf: "wfStore (initialPairs, [0])"
    by (simp add: wfStore_def initialPairs_def)
  have f: "map processFile (filter isImage ?dropped) =
             [''data:image/png;base64,AAAA'', ''data:image/jpeg;base64,BBBB'',
              ''data:image/png;base64,AAAA'']"
    by (simp add: isImage_def startsWith_def processFile_def examplePng_def exampleTxt_def
        exampleJpg_def)
  have ne_imgs: "list_all (\<lambda>img. img \<noteq> []) (map processFile (filter isImage ?dropped))"
    unfolding f by simp
  have ne_old: "imagesNonEmpty (pairsOf (initialPairs, [0]))"
    by (simp add: imagesNonEmpty_def initialPairs_def newPair_def)
  have kept: "filter hasImage (pairsOf (initialPairs, [0])) = []"
    by (simp add: hasImage_def initialPairs_def newPair_def)
  from mixed_batch_drop[OF wf ne_imgs ne_old, of exampleUUID]
  have len: "length ?res = 2"
    and nth: "\<forall>j. j < length ?res \<longrightarrow>
                ?res ! j = \<lparr>id_pair = exampleUUID j,
                   source = Some ([''data:image/png;base64,AAAA'', ''data:image/jpeg;base64,BBBB'',
                                   ''data:image/png;base64,AAAA''] ! (2 * j)),
                   target = (if 2 * j + 1 < 3
                             then Some ([''data:image/png;base64,AAAA'', ''data:image/jpeg;base64,BBBB'',
                                           ''data:image/png;base64,AAAA''] ! (2 * j + 1))
                             else None),
                   status = Idle\<rparr>"
    unfolding f kept by simp_all
  have "?res = [?res ! 0, ?res ! 1]"
    using len by (auto simp: list_eq_iff_nth_eq less_Suc_eq numeral_2_eq_2)
  moreover from nth len have "?res ! 0 = \<lparr>id_pair = ''u'', source = Some ''data:image/png;base64,AAAA'',
       target = Some ''data:image/jpeg;base64,BBBB'', status = Idle\<rparr>"
    by (simp add: exampleUUID_def)
  moreover from nth len have "?res ! 1 = \<lparr>id_pair = ''ux'', source = Some ''data:image/png;base64,AAAA'', target = None,
       status = Idle\<rparr>"
    by (simp add: exampleUUID_def)
  ultimately show ?thesis using wf ne_old
    by (simp add: initialStore_def)
qed

text \<open>
  Dropping a text file on the mixed zone of the initial panel: no new pair, and the empty
  pair is still there.
\<close>

theorem mixed_batch_drop_counterexample:
  "pairsOf (handleBatchDrop exampleUUID [exampleTxt] Mixed initialStore)
     \<noteq> filter hasImage (pairsOf initialStore)
         @ pairUp exampleUUID 0 (map processFile (filter isImage [exampleTxt]))
   \<and> \<not> hasImage (newPair ''a'' None None)
   \<and> newPair ''a'' None None \<in> set (pairsOf (handleBatchDrop exampleUUID [exampleTxt] Mixed initialStore))"
  by (simp add: handleBatchDrop_def isImage_def startsWith_def exampleTxt_def initialStore_def
      initialPairs_def hasImage_def newPair_def)

section \<open>Single-slot assignment\<close>

text \<open>
  Claim C8. Uploading or dropping an image file on a slot of the pair with identifier
  \<open>i\<close> sets that field of that pair to the decoded image and leaves its identifier, its
  status and its other field as they were; every other pair is unchanged. A file whose
  MIME type does not start with \<^verbatim>\<open>image/\<close> leaves the list unchanged.
\<close>

theorem single_slot_assignment:
  fixes prev :: "PendingPair list" and i :: string and fl :: File and sl :: slot
  defines "res \<equiv> handleImageUpload i fl sl prev"
  shows "(\<not> isImage fl \<longrightarrow> res = prev) \<and>
         (isImage fl \<longrightarrow>
            length res = length prev \<and>
            (\<forall>j. j < length prev \<and> id_pair (prev ! j) \<noteq> i \<longrightarrow> res ! j = prev ! j) \<and>
            (\<forall>j. j < length prev \<and> id_pair (prev ! j) = i \<longrightarrow>
               id_pair (res ! j) = i \<and> status (res ! j) = status (prev ! j) \<and>
               (case sl of
                  Source \<Rightarrow> source (res ! j) = Some (processFile fl) \<and> target (res ! j) = target (prev ! j)
                | Target \<Rightarrow> target (res ! j) = Some (processFile fl) \<and> source (res ! j) = source (prev ! j)))) \<and>
         handleDropSlot (fl # rest) i sl prev = res \<and>
         handleDropSlot [] i sl prev = prev"
  by (cases sl) (auto simp: res_def handleImageUpload_def handleDropSlot_def Let_def)

theorem single_slot_assignment_witness:
  "isImage examplePng \<and> \<not> isImage exampleTxt \<and>
   handleImageUpload ''c'' exampleTxt Target examplePairs = examplePairs \<and>
   length (handleImageUpload ''c'' examplePng Target examplePairs) = 3 \<and>
   handleImageUpload ''c'' examplePng Target examplePairs ! 0 = examplePairs ! 0 \<and>
   handleImageUpload ''c'' examplePng Target examplePairs ! 1 = examplePairs ! 1 \<and>
   target (handleImageUpload ''c'' examplePng Target examplePairs ! 2) = Some ''data:image/png;base64,AAAA'' \<and>
   source (handleImageUpload ''c'' examplePng Target examplePairs ! 2) = Some ''data:image/png;base64,EEEE'' \<and>
   status (handleImageUpload ''c'' examplePng Target examplePairs ! 2) = Idle"
proof -
  have a: "isImage examplePng" and b: "\<not> isImage exampleTxt"
    by (simp_all add: isImage_def startsWith_def examplePng_def exampleTxt_def)
  have c: "length examplePairs = 3" "id_pair (examplePairs ! 0) \<noteq> ''c''" "id_pair (examplePairs ! 1) \<noteq> ''c''"
     "id_pair (examplePairs ! 2) = ''c''" "source (examplePairs ! 2) = Some ''data:image/png;base64,EEEE''"
     "status (examplePairs ! 2) = Idle" "processFile examplePng = ''data:image/png;base64,AAAA''"
    by (simp_all add: examplePairs_def processFile_def examplePng_def)
  from single_slot_assignment[of exampleTxt "''c''" Target examplePairs] b
  have 1: "handleImageUpload ''c'' exampleTxt Target examplePairs = examplePairs" by simp
  from single_slot_assignment[of examplePng "''c''" Target examplePairs] a c
  show ?thesis using 1 b by simp
qed

section \<open>The loop of the batch processor\<close>

subsection \<open>Numbers\<close>

lemma lostBits_small: "m < 2 ^ 53 \<Longrightarrow> lostBits m = 0"
  by (subst lostBits.simps) simp

lemma lostBits_large: "2 ^ 53 \<le> m \<Longrightarrow> lostBits m = Suc (lostBits (m div 2))"
  by (subst lostBits.simps) simp

lemma roundMagnitude_small: "m \<le> 2 ^ 53 \<Longrightarrow> roundMagnitude m = m"
proof (cases "m < 2 ^ 53")
  case True
  then show ?thesis by (simp add: roundMagnitude_def lostBits_small)
next
  case False
  assume "m \<le> 2 ^ 53"
  with False have m: "m = 2 ^ 53" by simp
  have "lostBits (2 ^ 53) = 1"
    by (simp add: lostBits_small lostBits_large)
  then show ?thesis unfolding m by (simp add: roundMagnitude_def)
qed

text \<open>Up to \<open>2 ^ 53\<close> in magnitude every integer is a double and sums are exact.\<close>

lemma toDouble_safe: "\<bar>x\<bar> \<le> 2 ^ 53 \<Longrightarrow> toDouble x = x"
  by (cases "x < 0") (simp_all add: toDouble_def roundMagnitude_small)

lemma jsAdd_safe: "\<bar>a + b\<bar> \<le> 2 ^ 53 \<Longrightarrow> jsAdd a b = a + b"
  by (simp add: jsAdd_def toDouble_safe)

lemmas double_eval = jsAdd_def toDouble_def roundMagnitude_def lostBits_small lostBits_large

text \<open>Beyond, they round: \<open>2 ^ 53 + 1\<close> is \<open>2 ^ 53\<close>, and \<open>2 ^ 53 + 3\<close> is \<open>2 ^ 53 + 4\<close>.\<close>

lemma jsAdd_rounds:
  "jsAdd (2 ^ 53) 1 = 2 ^ 53" "jsAdd (2 ^ 53 + 2) 1 = 2 ^ 53 + 4"
  "jsAdd (- (2 ^ 53)) (- 1) = - (2 ^ 53)" "jsAdd (2 ^ 60) 128 = 2 ^ 60"
  "jsAdd (2 ^ 60) 129 = 2 ^ 60 + 256" "jsAdd (2 ^ 60 + 256) 128 = 2 ^ 60 + 512"
  by (simp_all add: double_eval)

subsection \<open>The loop as a function of the batch\<close>

lemma setStatus_twice: "setStatus i s (setStatus i s' qs) = setStatus i s qs"
  by (simp add: setStatus_def)

lemma forEach_processPair:
  "forEach (processPair env) ps k (w, c, n) =
     (w\<lparr>pendingPairs := batchStatus env ps k (pendingPairs w),
        project := (project w)\<lparr>shots := shots (project w) @ batchShots env ps k c n\<rparr>,
        events := events w @ batchEvents env ps k\<rparr>,
      batchCounters env ps k (c, n))"
proof (induction ps arbitrary: k w c n)
  case Nil
  show ?case by simp
next
  case (Cons p ps)
  show ?case
  proof (cases "analyse env k p")
    case (Inl err)
    then show ?thesis
      by (simp add: Cons.IH setStatus_twice tryBlock_def catchBlock_def)
  next
    case (Inr v)
    then show ?thesis
      by (cases v) (simp_all add: Cons.IH setStatus_twice tryBlock_def catchBlock_def)
  qed
qed

lemma processBatch_unfold:
  "processBatch env w =
     (if validPairs (pendingPairs w) = [] then w
      else w\<lparr>pendingPairs :=
                purgeCompleted
                  (randomUUID env (snd (batchCounters env (validPairs (pendingPairs w)) 0
                                           (firstSequenceNumber (project w), 0))))
                  (batchStatus env (validPairs (pendingPairs w)) 0 (pendingPairs w)),
              project := (project w)\<lparr>shots := shots (project w)
                 @ batchShots env (validPairs (pendingPairs w)) 0 (firstSequenceNumber (project w)) 0\<rparr>,
              events := events w @ [SetIsStudioBusy True]
                 @ batchEvents env (validPairs (pendingPairs w)) 0 @ [SetIsStudioBusy False]\<rparr>)"
  by (simp add: processBatch_def Let_def forEach_processPair split: prod.splits)

lemma new_shots:
  "drop (length (shots (project w))) (shots (project (processBatch env w))) =
     batchShots env (validPairs (pendingPairs w)) 0 (firstSequenceNumber (project w)) 0"
  by (simp add: processBatch_unfold validPairs_def)

lemma shots_after:
  "shots (project (processBatch env w)) =
     shots (project w) @ batchShots env (validPairs (pendingPairs w)) 0 (firstSequenceNumber (project w)) 0"
  by (simp add: processBatch_unfold validPairs_def)

lemma new_events:
  "drop (length (events w)) (events (processBatch env w)) =
     (if validPairs (pendingPairs w) = [] then []
      else SetIsStudioBusy True # batchEvents env (validPairs (pendingPairs w)) 0 @ [SetIsStudioBusy False])"
  by (simp add: processBatch_unfold)

subsection \<open>The shots of a batch\<close>

lemma tryBlock_cases:
  "(analyse env k p = Inr (JValue r)) = (tryBlock env k p = Inr r)"
  by (auto simp: tryBlock_def split: sum.splits json.splits)

lemma length_batchShots:
  "length (batchShots env ps k c n) = length (filter (\<lambda>r. \<not> isl r) (outcomes env k ps))"
  by (induction ps arbitrary: k c n)
     (auto simp: outcomes_def tryBlock_def split: sum.splits json.splits)

lemma length_batchShots_rights:
  "length (batchShots env ps k c n) = length (rights (outcomes env k ps))"
  by (induction ps arbitrary: k c n)
     (auto simp: outcomes_def tryBlock_def split: sum.splits json.splits)

lemma batchShots_topics:
  "map topic (batchShots env ps k c n) =
     map (\<lambda>r. orElse (result_topic r) ''Sequence Segment'') (rights (outcomes env k ps))"
  by (induction ps arbitrary: k c n)
     (auto simp: outcomes_def tryBlock_def newShot_def split: sum.splits json.splits)

text \<open>While the counter stays within the exact integers, no shot is numbered below it.\<close>

lemma batchShots_lower:
  "\<bar>c\<bar> + int (length ps) \<le> 2 ^ 53 \<Longrightarrow> s \<in> set (batchShots env ps k c n) \<Longrightarrow>
   c \<le> sequenceOrder s"
proof (induction ps arbitrary: k c n)
  case Nil
  then show ?case by simp
next
  case (Cons p ps)
  from Cons.prems(1) have j: "jsAdd c 1 = c + 1" by (intro jsAdd_safe) simp
  from Cons.prems(1) have b0: "\<bar>c\<bar> + int (length ps) \<le> 2 ^ 53"
    and b1: "\<bar>c + 1\<bar> + int (length ps) \<le> 2 ^ 53" by simp_all
  show ?case
  proof (cases "analyse env k p")
    case (Inl err)
    with Cons.prems(2) Cons.IH[OF b0] show ?thesis by simp
  next
    case (Inr v)
    show ?thesis
    proof (cases v)
      case JNull
      with Inr Cons.prems(2) Cons.IH[OF b1, of "Suc k" "Suc n"] show ?thesis
        by (simp add: j)
    next
      case (JValue r)
      with Inr Cons.prems(2) Cons.IH[OF b1, of "Suc k" "Suc n"] show ?thesis
        by (auto simp: j newShot_def)
    qed
  qed
qed

lemma batchShots_increasing:
  "\<bar>c\<bar> + int (length ps) \<le> 2 ^ 53 \<Longrightarrow>
   sorted_wrt (<) (map sequenceOrder (batchShots env ps k c n))"
proof (induction ps arbitrary: k c n)
  case Nil
  show ?case by simp
next
  case (Cons p ps)
  from Cons.prems have j: "jsAdd c 1 = c + 1" by (intro jsAdd_safe) simp
  from Cons.prems have b0: "\<bar>c\<bar> + int (length ps) \<le> 2 ^ 53"
    and b1: "\<bar>c + 1\<bar> + int (length ps) \<le> 2 ^ 53" by simp_all
  show ?case
  proof (cases "analyse env k p")
    case (Inl err)
    with Cons.IH[OF b0] show ?thesis by simp
  next
    case (Inr v)
    show ?thesis
    proof (cases v)
      case JNull
      with Inr Cons.IH[OF b1, of "Suc k" "Suc n"] show ?thesis by (simp add: j)
    next
      case (JValue r)
      have "c < sequenceOrder s" if "s \<in> set (batchShots env ps (Suc k) (c + 1) (Suc n))" for s
        using batchShots_lower[OF b1 that] by simp
      with JValue Inr Cons.IH[OF b1, of "Suc k" "Suc n"] show ?thesis
        by (auto simp: j newShot_def)
    qed
  qed
qed

text \<open>When moreover no response parses to \<^verbatim>\<open>null\<close>, the shots are numbered consecutively.\<close>

lemma nth_batchShots_sequenceOrder:
  "\<bar>c\<bar> + int (length ps) \<le> 2 ^ 53 \<Longrightarrow>
   (\<forall>i < length ps. analyse env (k + i) (ps ! i) \<noteq> Inr JNull) \<Longrightarrow>
   j < length (batchShots env ps k c n) \<Longrightarrow>
   sequenceOrder (batchShots env ps k c n ! j) = c + int j"
proof (induction ps arbitrary: k c n j)
  case Nil
  then show ?case by simp
next
  case (Cons p ps)
  from Cons.prems(1) have js: "jsAdd c 1 = c + 1" by (intro jsAdd_safe) simp
  from Cons.prems(1) have b0: "\<bar>c\<bar> + int (length ps) \<le> 2 ^ 53"
    and b1: "\<bar>c + 1\<bar> + int (length ps) \<le> 2 ^ 53" by simp_all
  from Cons.prems(2) have h: "analyse env k p \<noteq> Inr JNull" by force
  have t: "\<forall>i < length ps. analyse env (Suc k + i) (ps ! i) \<noteq> Inr JNull"
  proof (intro allI impI)
    fix i assume "i < length ps"
    with Cons.prems(2) have "analyse env (k + Suc i) ((p # ps) ! Suc i) \<noteq> Inr JNull" by auto
    then show "analyse env (Suc k + i) (ps ! i) \<noteq> Inr JNull" by simp
  qed
  show ?case
  proof (cases "analyse env k p")
    case (Inl err)
    with Cons.prems(3) Cons.IH[OF b0 t, of j n] show ?thesis by simp
  next
    case (Inr v)
    with h obtain r where v: "v = JValue r" by (cases v) auto
    show ?thesis
    proof (cases j)
      case 0
      with Inr v show ?thesis by (simp add: newShot_def)
    next
      case (Suc j')
      with Inr v Cons.prems(3) Cons.IH[OF b1 t, of j' "Suc n"] show ?thesis
        by (simp add: js)
    qed
  qed
qed

lemma batchShots_contains:
  "j < length ps \<Longrightarrow> tryBlock env (k + j) (ps ! j) = Inr r \<Longrightarrow>
   \<exists>uid c'. newShot uid c' r (ps ! j) \<in> set (batchShots env ps k c n)"
proof (induction ps arbitrary: k c n j)
  case Nil
  then show ?case by simp
next
  case (Cons p ps)
  show ?case
  proof (cases j)
    case 0
    with Cons.prems have "analyse env k p = Inr (JValue r)" by (simp add: tryBlock_cases)
    then show ?thesis using 0 by auto
  next
    case (Suc j')
    with Cons.prems have a: "j' < length ps" "tryBlock env (Suc k + j') (ps ! j') = Inr r"
      by simp_all
    from Cons.IH[OF a] have ih: "\<exists>uid c'. newShot uid c' r (ps ! j') \<in> set (batchShots env ps (Suc k) c n)"
      for c n by blast
    show ?thesis
    proof (cases "analyse env k p")
      case (Inl err)
      with ih[of c n] Suc show ?thesis by simp
    next
      case (Inr v)
      with ih[of "jsAdd c 1" "Suc n"] Suc show ?thesis by (cases v) auto
    qed
  qed
qed

lemma batchShots_images:
  "list_all (\<lambda>p. truthy (source p) \<and> truthy (target p)) ps \<Longrightarrow>
   map (\<lambda>s. (Some (sourceImage s), Some (targetImage s))) (batchShots env ps k c n) =
   map (\<lambda>p. (source p, target p)) (succeeded env k ps)"
proof (induction ps arbitrary: k c n)
  case Nil
  show ?case by (simp add: succeeded_def)
next
  case (Cons p ps)
  from Cons.prems obtain x y where xy: "source p = Some x" "x \<noteq> []" "target p = Some y" "y \<noteq> []"
    by (cases "source p"; cases "target p") auto
  from Cons have ih: "\<And>k c n. map (\<lambda>s. (Some (sourceImage s), Some (targetImage s))) (batchShots env ps k c n) =
   map (\<lambda>p. (source p, target p)) (succeeded env k ps)" by simp
  show ?case
  proof (cases "analyse env k p")
    case (Inl err)
    then show ?thesis using ih[of "Suc k" c n] by (simp add: succeeded_def tryBlock_def)
  next
    case (Inr v)
    then show ?thesis using ih[of "Suc k" "jsAdd c 1" "Suc n"] xy
      by (cases v) (simp_all add: succeeded_def tryBlock_def newShot_def)
  qed
qed

lemma batchShots_all_fail:
  "(\<forall>j < length ps. isl (tryBlock env (k + j) (ps ! j))) \<Longrightarrow> batchShots env ps k c n = []"
proof (induction ps arbitrary: k c n)
  case Nil
  show ?case by simp
next
  case (Cons p ps)
  from Cons.prems have "isl (tryBlock env (k + 0) ((p # ps) ! 0))" by blast
  then have e: "\<And>r. analyse env k p \<noteq> Inr (JValue r)"
    by (auto simp: tryBlock_cases)
  have "\<forall>j < length ps. isl (tryBlock env (Suc k + j) (ps ! j))"
  proof (intro allI impI)
    fix j assume "j < length ps"
    with Cons.prems have "isl (tryBlock env (k + Suc j) ((p # ps) ! Suc j))" by auto
    then show "isl (tryBlock env (Suc k + j) (ps ! j))" by simp
  qed
  from Cons.IH[OF this] e show ?case
    by (auto split: sum.splits json.splits)
qed

subsection \<open>The statuses and the events of a batch\<close>

lemma batchStatus_map: "batchStatus env ps k qs = map (finalPair env ps k) qs"
proof (induction ps arbitrary: k qs)
  case Nil
  show ?case by simp
next
  case (Cons p ps)
  show ?case by (simp add: Cons.IH setStatus_def comp_def)
qed

lemma finalPair_notin: "id_pair q \<notin> id_pair ` set ps \<Longrightarrow> finalPair env ps k q = q"
  by (induction ps arbitrary: k) auto

lemma finalPair_in:
  "distinct (map id_pair ps) \<Longrightarrow> j < length ps \<Longrightarrow> id_pair q = id_pair (ps ! j) \<Longrightarrow>
   finalPair env ps k q = q\<lparr>status := verdict (tryBlock env (k + j) (ps ! j))\<rparr>"
proof (induction ps arbitrary: k q j)
  case Nil
  then show ?case by simp
next
  case (Cons p ps)
  show ?case
  proof (cases j)
    case 0
    with Cons.prems show ?thesis by (simp add: finalPair_notin)
  next
    case (Suc j')
    with Cons.prems have mem: "ps ! j' \<in> set ps" by simp
    from Cons.prems have notin: "id_pair p \<notin> id_pair ` set ps" by simp
    have "id_pair q \<noteq> id_pair p"
    proof
      assume "id_pair q = id_pair p"
      with Cons.prems(3) Suc have "id_pair (ps ! j') = id_pair p" by simp
      with mem have "id_pair p \<in> id_pair ` set ps" by (metis imageI)
      with notin show False by contradiction
    qed
    with Cons.prems Suc Cons.IH[of j' q "Suc k"] show ?thesis by simp
  qed
qed

lemma callsFor_filter: "filter isReport (callsFor env p) = [] \<and> filter isCall (callsFor env p) = callsFor env p"
  by (simp add: callsFor_def split: sum.splits)

lemma batchEvents_reports:
  "filter isReport (batchEvents env ps k) =
     (if onApiError env then map (\<lambda>err. OnApiError err ''Analysis'') (lefts (outcomes env k ps)) else [])"
  by (induction ps arbitrary: k) (auto simp: outcomes_def callsFor_filter split: sum.splits)

lemma batchEvents_calls:
  "filter isCall (batchEvents env ps k) = concat (map (callsFor env) ps)"
  by (induction ps arbitrary: k) (auto simp: callsFor_filter split: sum.splits)

lemma batchEvents_not_busy: "SetIsStudioBusy b \<notin> set (batchEvents env ps k)"
  by (induction ps arbitrary: k) (auto simp: callsFor_def split: sum.splits)

lemma callsFor_valid:
  "truthy (source p) \<Longrightarrow> truthy (target p) \<Longrightarrow>
   \<exists>src tgt. source p = Some src \<and> target p = Some tgt \<and> callsFor env p = [GenerateContent (buildRequest (styleDirective env) src tgt)]"
  by (cases "source p"; cases "target p") (auto simp: callsFor_def requestFor_def)

section \<open>The list is never empty\<close>








section \<open>Batch processor: properties\<close>

lemma batchEvents_requests:
  "GenerateContent req \<in> set (batchEvents env ps k) \<Longrightarrow>
   \<exists>src tgt. req = buildRequest (styleDirective env) src tgt"
  by (induction ps arbitrary: k)
     (auto simp: callsFor_def requestFor_def split: sum.splits option.splits if_splits)

lemma length_calls_valid:
  "list_all (\<lambda>p. truthy (source p) \<and> truthy (target p)) ps \<Longrightarrow>
   length (concat (map (callsFor env) ps)) = length ps"
proof (induction ps)
  case Nil
  show ?case by simp
next
  case (Cons p ps)
  then have "truthy (source p)" "truthy (target p)" by simp_all
  from callsFor_valid[OF this, of env] have "length (callsFor env p) = 1" by auto
  with Cons show ?case by simp
qed

text \<open>
  On a list whose images are never the empty string, the qualifying pairs are those with
  both images present and a status other than completed.
\<close>

lemma validPairs_present:
  assumes "imagesNonEmpty ps"
  shows "validPairs ps =
           filter (\<lambda>p. source p \<noteq> None \<and> target p \<noteq> None \<and> status p \<noteq> Completed) ps"
  unfolding validPairs_def
proof (rule filter_cong[OF refl])
  fix p assume "p \<in> set ps"
  with assms have "source p \<noteq> Some []" "target p \<noteq> Some []"
    by (auto simp: imagesNonEmpty_def list_all_iff)
  then show "(truthy (source p) \<and> truthy (target p) \<and> status p \<noteq> Completed) =
             (source p \<noteq> None \<and> target p \<noteq> None \<and> status p \<noteq> Completed)"
    by (cases "source p"; cases "target p") auto
qed

lemma validPairs_truthy:
  "list_all (\<lambda>p. truthy (source p) \<and> truthy (target p)) (validPairs ps)"
  by (simp add: validPairs_def list_all_iff)

lemma finalPair_id: "id_pair (finalPair env ps k q) = id_pair q"
  by (induction ps arbitrary: k q) auto

lemma distinct_validPairs:
  "distinct (map id_pair ps) \<Longrightarrow> distinct (map id_pair (validPairs ps))"
  by (simp add: validPairs_def distinct_map_filter)

lemma pending_after:
  "validPairs (pendingPairs w) \<noteq> [] \<Longrightarrow>
   pendingPairs (processBatch env w) =
     purgeCompleted
       (randomUUID env (snd (batchCounters env (validPairs (pendingPairs w)) 0
                                (firstSequenceNumber (project w), 0))))
       (map (finalPair env (validPairs (pendingPairs w)) 0) (pendingPairs w))"
  by (simp add: processBatch_unfold batchStatus_map)

lemma purgeCompleted_set:
  "q \<in> set qs \<Longrightarrow> status q \<noteq> Completed \<Longrightarrow>
   set (purgeCompleted uid qs) = {p \<in> set qs. status p \<noteq> Completed}"
proof -
  assume "q \<in> set qs" "status q \<noteq> Completed"
  then have "q \<in> set (filter (\<lambda>p. status p \<noteq> Completed) qs)" by simp
  then have "filter (\<lambda>p. status p \<noteq> Completed) qs \<noteq> []" by (metis empty_iff empty_set)
  then show ?thesis by (auto simp: purgeCompleted_def Let_def)
qed


lemmas example_defs =
  processBatch_def exampleEnv_def exampleWorld_def examplePairs_def validPairs_def
  firstSequenceNumber_def analyse_def requestFor_def callsFor_def setStatus_def
  purgeCompleted_def exampleResult_def newShot_def exampleShot_def failingEnv_def exampleUUID_def
  catchBlock_def silentEnv_def nullFirstEnv_def tryBlock_def

text \<open>
  Claim C7. When no pending pair qualifies, \<^verbatim>\<open>processBatch\<close> leaves the world as it
  is: no callback, no service call, the same pending list and project. Otherwise what it
  logs starts with the busy callback set to true and ends with the busy callback set to
  false; between the two the busy callback is not invoked, and there lie the service
  calls, one for each qualifying pair, and the error reports.
\<close>

theorem processBatch_busy:
  fixes env :: env and w :: world
  defines "valid \<equiv> validPairs (pendingPairs w)"
    and "w' \<equiv> processBatch env w"
  defines "log \<equiv> drop (length (events w)) (events w')"
  shows "(valid = [] \<longrightarrow> w' = w) \<and>
         (valid \<noteq> [] \<longrightarrow>
            (\<exists>mid. events w' = events w @ [SetIsStudioBusy True] @ mid @ [SetIsStudioBusy False] \<and>
                   (\<forall>b. SetIsStudioBusy b \<notin> set mid) \<and>
                   filter isCall mid = concat (map (callsFor env) valid) \<and>
                   length (filter isCall mid) = length valid \<and>
                   filter isReport mid = filter isReport log))"
proof -
  have 1: "valid = [] \<longrightarrow> w' = w"
    by (simp add: valid_def w'_def processBatch_unfold)
  have 2: "\<exists>mid. events w' = events w @ [SetIsStudioBusy True] @ mid @ [SetIsStudioBusy False] \<and>
                   (\<forall>b. SetIsStudioBusy b \<notin> set mid) \<and>
                   filter isCall mid = concat (map (callsFor env) valid) \<and>
                   length (filter isCall mid) = length valid \<and>
                   filter isReport mid = filter isReport log" if ne: "valid \<noteq> []"
  proof (intro exI[of _ "batchEvents env valid 0"] conjI)
    show "events w' = events w @ [SetIsStudioBusy True] @ batchEvents env valid 0 @ [SetIsStudioBusy False]"
      using ne by (simp add: valid_def w'_def processBatch_unfold)
    show "\<forall>b. SetIsStudioBusy b \<notin> set (batchEvents env valid 0)"
      by (simp add: batchEvents_not_busy)
    show c: "filter isCall (batchEvents env valid 0) = concat (map (callsFor env) valid)"
      by (rule batchEvents_calls)
    show "length (filter isCall (batchEvents env valid 0)) = length valid"
      using length_calls_valid[OF validPairs_truthy, of env "pendingPairs w"]
      by (simp add: batchEvents_calls valid_def)
    show "filter isReport (batchEvents env valid 0) = filter isReport log"
      using ne by (simp add: log_def w'_def valid_def new_events)
  qed
  from 1 2 show ?thesis by blast
qed

theorem processBatch_busy_witness:
  "validPairs (pendingPairs (exampleWorld 5 [])) \<noteq> [] \<and>
   hd (events (processBatch exampleEnv (exampleWorld 5 []))) = SetIsStudioBusy True \<and>
   last (events (processBatch exampleEnv (exampleWorld 5 []))) = SetIsStudioBusy False \<and>
   length (events (processBatch exampleEnv (exampleWorld 5 []))) = 5 \<and>
   validPairs (pendingPairs idleWorld) = [] \<and>
   processBatch exampleEnv idleWorld = idleWorld"
proof -
  let ?w = "exampleWorld 5 []"
  let ?u = "idleWorld"
  have v: "validPairs (pendingPairs ?w) \<noteq> []"
    by (simp add: validPairs_def exampleWorld_def examplePairs_def)
  have v0: "validPairs (pendingPairs ?u) = []"
    by (simp add: validPairs_def idleWorld_def initialPairs_def newPair_def)
  from processBatch_busy[where w = "?u" and env = exampleEnv] v0
  have 1: "processBatch exampleEnv ?u = ?u" by blast
  from processBatch_busy[where w = "?w" and env = exampleEnv] v
  obtain mid where mid: "events (processBatch exampleEnv ?w) =
      events ?w @ [SetIsStudioBusy True] @ mid @ [SetIsStudioBusy False]"
    by blast
  have e: "events ?w = []" by (simp add: exampleWorld_def)
  from mid have 2: "hd (events (processBatch exampleEnv ?w)) = SetIsStudioBusy True"
    "last (events (processBatch exampleEnv ?w)) = SetIsStudioBusy False"
    unfolding e by simp_all
  have 3: "length (events (processBatch exampleEnv ?w)) = 5"
    by (simp add: example_defs)
  from v v0 1 2 3 show ?thesis by simp
qed

lemma firstSequenceNumber_safe:
  "\<bar>(if startingSequenceNumber p = 0 then 1 else startingSequenceNumber p) + int (length (shots p))\<bar>
     \<le> 2 ^ 53 \<Longrightarrow>
   firstSequenceNumber p =
     (if startingSequenceNumber p = 0 then 1 else startingSequenceNumber p) + int (length (shots p))"
  unfolding firstSequenceNumber_def by (rule jsAdd_safe)

text \<open>
  Claim C1, amended. A run of \<^verbatim>\<open>processBatch\<close> appends to the project's shots exactly
  one shot for each qualifying pair whose \<^verbatim>\<open>try\<close> block succeeds and leaves the earlier
  shots in place. Let the first number be the starting sequence number, or \<open>1\<close> when that
  is \<open>0\<close>, plus the number of shots the project had before the batch. As long as the
  numbers of the batch stay within the integers that JavaScript numbers count exactly (up
  to \<open>2 ^ 53\<close>), the shots created carry strictly increasing sequence numbers in
  processing order; and when moreover no response of the batch parses to \<^verbatim>\<open>null\<close>, the
  \<open>j\<close>-th shot created carries the first number plus \<open>j\<close>.
\<close>

theorem processBatch_sequence_numbers:
  fixes env :: env and w :: world
  defines "valid \<equiv> validPairs (pendingPairs w)"
    and "old \<equiv> shots (project w)"
    and "after \<equiv> shots (project (processBatch env w))"
  defines "new \<equiv> drop (length old) after"
    and "first \<equiv> (if startingSequenceNumber (project w) = 0 then 1
                   else startingSequenceNumber (project w)) + int (length old)"
  shows "after = old @ new \<and>
         length new = length (filter (\<lambda>r. \<not> isl r) (outcomes env 0 valid)) \<and>
         (\<bar>first\<bar> + int (length valid) \<le> 2 ^ 53 \<longrightarrow>
            (\<forall>i j. i < j \<and> j < length new \<longrightarrow>
               sequenceOrder (new ! i) < sequenceOrder (new ! j))) \<and>
         (\<bar>first\<bar> + int (length valid) \<le> 2 ^ 53 \<and>
          (\<forall>k. k < length valid \<longrightarrow> analyse env k (valid ! k) \<noteq> Inr JNull) \<longrightarrow>
            (\<forall>j. j < length new \<longrightarrow> sequenceOrder (new ! j) = first + int j))"
proof -
  let ?c = "firstSequenceNumber (project w)"
  have n: "new = batchShots env valid 0 ?c 0"
    by (simp add: new_def old_def after_def valid_def new_shots)
  have a: "after = old @ new"
    unfolding n by (simp add: after_def old_def valid_def shots_after)
  have l: "length new = length (filter (\<lambda>r. \<not> isl r) (outcomes env 0 valid))"
    unfolding n by (rule length_batchShots)
  have c: "?c = first" if "\<bar>first\<bar> + int (length valid) \<le> 2 ^ 53"
  proof -
    from that have "\<bar>first\<bar> \<le> 2 ^ 53" by simp
    then show ?thesis unfolding first_def old_def by (rule firstSequenceNumber_safe)
  qed
  have inc: "sequenceOrder (new ! i) < sequenceOrder (new ! j)"
    if safe: "\<bar>first\<bar> + int (length valid) \<le> 2 ^ 53" and ij: "i < j" "j < length new" for i j
  proof -
    from batchShots_increasing[OF safe, of env 0 0]
    have "sorted_wrt (<) (map sequenceOrder new)" unfolding n c[OF safe] .
    from sorted_wrt_nth_less[OF this, of i j] ij show ?thesis by simp
  qed
  have ex: "sequenceOrder (new ! j) = first + int j"
    if safe: "\<bar>first\<bar> + int (length valid) \<le> 2 ^ 53"
      and nn: "\<forall>k. k < length valid \<longrightarrow> analyse env k (valid ! k) \<noteq> Inr JNull"
      and j: "j < length new" for j
  proof -
    from nn have "\<forall>i < length valid. analyse env (0 + i) (valid ! i) \<noteq> Inr JNull" by simp
    from nth_batchShots_sequenceOrder[OF safe this, of j 0] j show ?thesis
      unfolding n c[OF safe] by simp
  qed
  from a l inc ex show ?thesis by blast
qed

theorem processBatch_sequence_numbers_witness:
  "map sequenceOrder
     (drop 2 (shots (project (processBatch exampleEnv (exampleWorld 5 [exampleShot 5, exampleShot 6])))))
   = [7]"
proof -
  let ?w = "exampleWorld 5 [exampleShot 5, exampleShot 6]"
  define new where "new = drop (length (shots (project ?w))) (shots (project (processBatch exampleEnv ?w)))"
  have v: "validPairs (pendingPairs ?w) = [examplePairs ! 0, examplePairs ! 1]"
    by (simp add: validPairs_def exampleWorld_def examplePairs_def)
  have an: "analyse exampleEnv 0 (examplePairs ! 0) = Inr (JValue exampleResult)"
    "analyse exampleEnv (Suc 0) (examplePairs ! Suc 0) = Inl (Thrown ''503'')"
    by (simp_all add: analyse_def requestFor_def exampleEnv_def examplePairs_def)
  have o: "outcomes exampleEnv 0 (validPairs (pendingPairs ?w)) = [Inr exampleResult, Inl (Thrown ''503'')]"
    unfolding v by (simp add: outcomes_def tryBlock_def an)
  have l: "length (shots (project ?w)) = 2" "startingSequenceNumber (project ?w) = 5"
    by (simp_all add: exampleWorld_def)
  have safe: "\<bar>(if startingSequenceNumber (project ?w) = 0 then 1 else startingSequenceNumber (project ?w))
      + int (length (shots (project ?w)))\<bar> + int (length (validPairs (pendingPairs ?w))) \<le> 2 ^ 53"
    unfolding l v by simp
  have nn: "\<forall>k. k < length (validPairs (pendingPairs ?w)) \<longrightarrow>
      analyse exampleEnv k (validPairs (pendingPairs ?w) ! k) \<noteq> Inr JNull"
    unfolding v by (auto simp: less_Suc_eq numeral_2_eq_2 an)
  note t = processBatch_sequence_numbers[where w = "?w" and env = exampleEnv, folded new_def]
  from t have "length new = length (filter (\<lambda>r. \<not> isl r) (outcomes exampleEnv 0 (validPairs (pendingPairs ?w))))"
    by blast
  then have len: "length new = 1" unfolding o by simp
  from t safe nn have "\<forall>j. j < length new \<longrightarrow> sequenceOrder (new ! j) =
      (if startingSequenceNumber (project ?w) = 0 then 1 else startingSequenceNumber (project ?w))
        + int (length (shots (project ?w))) + int j"
    by blast
  with len have "sequenceOrder (new ! 0) = 7" unfolding l by simp
  with len have "map sequenceOrder new = [7]"
    by (cases new) simp_all
  then show ?thesis unfolding new_def l .
qed

text \<open>
  With a starting sequence number of \<open>0\<close> and no shot, the first shot is numbered \<open>1\<close>,
  not \<open>0\<close>.
\<close>

theorem processBatch_sequence_numbers_counterexample:
  "sequenceOrder (shots (project (processBatch exampleEnv (exampleWorld 0 []))) ! 0)
     \<noteq> startingSequenceNumber (project (exampleWorld 0 []))
         + int (length (shots (project (exampleWorld 0 []))))"
  by (simp add: example_defs jsAdd_safe)

text \<open>
  A starting sequence number of \<open>0\<close> is treated as \<open>1\<close>: the batch leaves the same shots,
  the same pending list and the same events.
\<close>

lemma zero_start_same_as_one:
  assumes "startingSequenceNumber (project w) = 0"
  shows "shots (project (processBatch env w)) =
           shots (project (processBatch env (w\<lparr>project := (project w)\<lparr>startingSequenceNumber := 1\<rparr>\<rparr>))) \<and>
         pendingPairs (processBatch env w) =
           pendingPairs (processBatch env (w\<lparr>project := (project w)\<lparr>startingSequenceNumber := 1\<rparr>\<rparr>)) \<and>
         events (processBatch env w) =
           events (processBatch env (w\<lparr>project := (project w)\<lparr>startingSequenceNumber := 1\<rparr>\<rparr>))"
proof -
  let ?w1 = "w\<lparr>project := (project w)\<lparr>startingSequenceNumber := 1\<rparr>\<rparr>"
  have f: "firstSequenceNumber ((project w)\<lparr>startingSequenceNumber := 1\<rparr>) =
             firstSequenceNumber (project w)"
    using assms by (simp add: firstSequenceNumber_def)
  have p: "pendingPairs ?w1 = pendingPairs w" "events ?w1 = events w"
    "shots (project ?w1) = shots (project w)"
    by simp_all
  show ?thesis by (simp add: processBatch_unfold p f)
qed

text \<open>
  Two runs of the model on inputs where the order of evaluation and the rounding show.
  When the first response parses to \<^verbatim>\<open>null\<close>, the first pair is marked \<open>Error\<close> and
  reported with a \<^verbatim>\<open>TypeError\<close>, and the shot of the second pair carries the second
  identifier drawn and the second number. At \<open>2 ^ 53\<close> the counter no longer advances,
  and two shots of one batch carry the same number.
\<close>

lemma null_response_draws_identifier_and_number:
  "map (\<lambda>s. (id_shot s, sequenceOrder s))
     (shots (project (processBatch nullFirstEnv (exampleWorld 5 [])))) = [(''ux'', 6)]"
  "map status (pendingPairs (processBatch nullFirstEnv (exampleWorld 5 []))) = [Error, Idle]"
  "filter isReport (events (processBatch nullFirstEnv (exampleWorld 5 []))) =
     [OnApiError TypeError ''Analysis'']"
  by (simp_all add: example_defs jsAdd_safe)

lemma counter_stalls_at_2_53:
  "map sequenceOrder
     (drop 1 (shots (project (processBatch steadyEnv (exampleWorld (2 ^ 53) [exampleShot 1])))))
   = [2 ^ 53, 2 ^ 53]"
  by (simp add: example_defs steadyEnv_def double_eval)

text \<open>
  Claim C10 says that with a starting sequence number of \<open>0\<close> the first successful shot
  is numbered \<open>1\<close> plus the number of existing shots. When the response for an earlier
  pair of the batch parses to \<^verbatim>\<open>null\<close>, the counter has advanced before the read of
  \<^verbatim>\<open>result.topic\<close> throws: with no existing shot, a first response \<^verbatim>\<open>null\<close> and a
  second that succeeds, the only shot made is numbered \<open>2\<close>.
\<close>

theorem zero_start_null_response_skips_number:
  "startingSequenceNumber (project (exampleWorld 0 [])) = 0 \<and>
   shots (project (exampleWorld 0 [])) = [] \<and>
   outcomes nullFirstEnv 0 (validPairs (pendingPairs (exampleWorld 0 []))) =
     [Inl TypeError, Inr exampleResult] \<and>
   map sequenceOrder (shots (project (processBatch nullFirstEnv (exampleWorld 0 [])))) = [2]"
  by (simp add: example_defs outcomes_def jsAdd_safe)

lemma requestsOf_append: "requestsOf (xs @ ys) = requestsOf xs @ requestsOf ys"
  by (induction xs rule: requestsOf.induct) simp_all

lemma requestsOf_valid:
  assumes "truthy (source p)" and "truthy (target p)"
  shows "\<exists>src tgt. requestsOf (callsFor env p) = [buildRequest (styleDirective env) src tgt]"
proof -
  from callsFor_valid[OF assms, of env] obtain src tgt where
    "callsFor env p = [GenerateContent (buildRequest (styleDirective env) src tgt)]"
    by blast
  then have "requestsOf (callsFor env p) = [buildRequest (styleDirective env) src tgt]"
    by simp
  then show ?thesis by blast
qed

lemma batchEvents_requestsOf:
  "list_all (\<lambda>p. truthy (source p) \<and> truthy (target p)) ps \<Longrightarrow>
   length (requestsOf (batchEvents env ps k)) = length ps \<and>
   (\<forall>req \<in> set (requestsOf (batchEvents env ps k)).
       \<exists>src tgt. req = buildRequest (styleDirective env) src tgt)"
proof (induction ps arbitrary: k)
  case Nil
  show ?case by simp
next
  case (Cons p ps)
  then have "truthy (source p)" "truthy (target p)" by simp_all
  from requestsOf_valid[OF this, of env]
  obtain src tgt where r: "requestsOf (callsFor env p) = [buildRequest (styleDirective env) src tgt]"
    by blast
  have e: "requestsOf (case tryBlock env k p of Inl err \<Rightarrow>
              if onApiError env then [OnApiError err ''Analysis''] else [] | Inr result \<Rightarrow> []) = []"
    by (simp split: sum.splits)
  from Cons have ih: "length (requestsOf (batchEvents env ps (Suc k))) = length ps"
    "\<forall>req \<in> set (requestsOf (batchEvents env ps (Suc k))).
       \<exists>src tgt. req = buildRequest (styleDirective env) src tgt"
    by simp_all
  from ih r show ?case
    by (auto simp: requestsOf_append e)
qed

lemma map_const_replicate:
  "(\<forall>x \<in> set xs. f x = c) \<Longrightarrow> map f xs = replicate (length xs) c"
  by (induction xs) simp_all

text \<open>
  Claim C5, amended. In a batch over pairs with pairwise different identifiers: when the
  \<^verbatim>\<open>try\<close> block for pair \<open>A\<close> succeeds and the one for pair \<open>B\<close> fails, no pair with the
  identifier of \<open>A\<close> is left in the pending list, a new shot carries the images of \<open>A\<close>
  and the analysis returned for it, and \<open>B\<close> is in the pending list with status
  \<open>Error\<close>. The new shots are, in order, those of the pairs that succeeded, so a failed
  pair contributes none. Every failure is reported once, with the context
  \<^verbatim>\<open>Analysis\<close>, when the optional error callback was passed, and not reported when it
  was not. A service call is made for every pair of the batch whatever happened to the
  pairs before it. When every pair of a batch fails, no shot is added and every pair of
  the original list that was not already completed is retained: the pairs of the batch
  marked \<open>Error\<close>, the others as they were.
\<close>

theorem failure_isolated:
  fixes env :: env and w :: world
  defines "valid \<equiv> validPairs (pendingPairs w)"
    and "w' \<equiv> processBatch env w"
  defines "new \<equiv> drop (length (shots (project w))) (shots (project w'))"
    and "log \<equiv> drop (length (events w)) (events w')"
  assumes d: "distinct (map id_pair (pendingPairs w))"
  shows "(\<forall>a b ra eb.
            a < length valid \<and> b < length valid \<and>
            tryBlock env a (valid ! a) = Inr ra \<and> tryBlock env b (valid ! b) = Inl eb \<longrightarrow>
              (\<forall>q \<in> set (pendingPairs w'). id_pair q \<noteq> id_pair (valid ! a)) \<and>
              (\<exists>s \<in> set new.
                  Some (sourceImage s) = source (valid ! a) \<and>
                  Some (targetImage s) = target (valid ! a) \<and>
                  visualAnalysis s = result_analysis ra \<and> actionPrompt s = result_prompt ra) \<and>
              (valid ! b)\<lparr>status := Error\<rparr> \<in> set (pendingPairs w')) \<and>
         map (\<lambda>s. (Some (sourceImage s), Some (targetImage s))) new =
           map (\<lambda>p. (source p, target p)) (succeeded env 0 valid) \<and>
         filter isReport log =
           (if onApiError env
            then map (\<lambda>err. OnApiError err ''Analysis'') (lefts (outcomes env 0 valid))
            else []) \<and>
         filter isCall log = concat (map (callsFor env) valid) \<and>
         length (filter isCall log) = length valid \<and>
         ((\<forall>k. k < length valid \<longrightarrow> isl (tryBlock env k (valid ! k))) \<longrightarrow>
            shots (project w') = shots (project w) \<and>
            pendingPairs w' =
              (if valid = [] then pendingPairs w
               else map (\<lambda>p. if p \<in> set valid then p\<lparr>status := Error\<rparr> else p)
                      (filter (\<lambda>p. status p \<noteq> Completed) (pendingPairs w))))"
proof -
  let ?orig = "pendingPairs w"
  let ?fin = "map (finalPair env valid 0) ?orig"
  let ?c = "firstSequenceNumber (project w)"
  define uid where "uid = randomUUID env (snd (batchCounters env valid 0 (?c, 0)))"
  have dv: "distinct (map id_pair valid)"
    using d unfolding valid_def by (rule distinct_validPairs)
  have sub: "set valid \<subseteq> set ?orig" by (auto simp: valid_def validPairs_def)
  have tr: "list_all (\<lambda>p. truthy (source p) \<and> truthy (target p)) valid"
    unfolding valid_def by (rule validPairs_truthy)
  have n: "new = batchShots env valid 0 ?c 0"
    by (simp add: new_def w'_def valid_def new_shots)
  have lg: "log = (if valid = [] then [] else SetIsStudioBusy True # batchEvents env valid 0 @ [SetIsStudioBusy False])"
    by (simp add: log_def w'_def valid_def new_events)
  have pa: "pendingPairs w' = purgeCompleted uid ?fin" if "valid \<noteq> []"
    using that unfolding w'_def valid_def uid_def by (simp add: pending_after)
  have iso: "(\<forall>q \<in> set (pendingPairs w'). id_pair q \<noteq> id_pair (valid ! a)) \<and>
              (\<exists>s \<in> set new.
                  Some (sourceImage s) = source (valid ! a) \<and>
                  Some (targetImage s) = target (valid ! a) \<and>
                  visualAnalysis s = result_analysis ra \<and> actionPrompt s = result_prompt ra) \<and>
              (valid ! b)\<lparr>status := Error\<rparr> \<in> set (pendingPairs w')"
    if ab: "a < length valid" "b < length valid"
      and oa: "tryBlock env a (valid ! a) = Inr ra" and ob: "tryBlock env b (valid ! b) = Inl eb"
    for a b ra eb
  proof -
    from ab have ne: "valid \<noteq> []" by auto
    note pa = pa[OF ne]
    from ab sub have Bin: "valid ! b \<in> set ?orig" by auto
    have fB: "finalPair env valid 0 (valid ! b) = (valid ! b)\<lparr>status := Error\<rparr>"
      using finalPair_in[OF dv ab(2) refl, of env 0] ob by simp
    with Bin have B1: "(valid ! b)\<lparr>status := Error\<rparr> \<in> set ?fin"
      by (metis (no_types, lifting) image_eqI list.set_map)
    have B2: "status ((valid ! b)\<lparr>status := Error\<rparr>) \<noteq> Completed" by simp
    note ps = purgeCompleted_set[OF B1 B2, of uid, folded pa]
    from B1 B2 have 3: "(valid ! b)\<lparr>status := Error\<rparr> \<in> set (pendingPairs w')"
      unfolding ps by simp
    have 1: "\<forall>q \<in> set (pendingPairs w'). id_pair q \<noteq> id_pair (valid ! a)"
    proof
      fix q assume "q \<in> set (pendingPairs w')"
      then have q: "q \<in> set ?fin" "status q \<noteq> Completed" unfolding ps by simp_all
      then obtain q0 where q0: "q0 \<in> set ?orig" "q = finalPair env valid 0 q0" by auto
      show "id_pair q \<noteq> id_pair (valid ! a)"
      proof
        assume "id_pair q = id_pair (valid ! a)"
        with q0 have "id_pair q0 = id_pair (valid ! a)" by (simp add: finalPair_id)
        from finalPair_in[OF dv ab(1) this, of env 0] oa q0
        have "status q = Completed" by simp
        with q show False by simp
      qed
    qed
    from batchShots_contains[of a valid env 0 ra ?c 0] ab(1) oa
    obtain u c' where i: "newShot u c' ra (valid ! a) \<in> set new"
      unfolding n by auto
    from tr ab(1) have "truthy (source (valid ! a))" "truthy (target (valid ! a))"
      by (simp_all add: list_all_length)
    then obtain x y where xy: "source (valid ! a) = Some x" "x \<noteq> []" "target (valid ! a) = Some y" "y \<noteq> []"
      by (cases "source (valid ! a)"; cases "target (valid ! a)") auto
    have "Some (sourceImage (newShot u c' ra (valid ! a))) = source (valid ! a) \<and>
          Some (targetImage (newShot u c' ra (valid ! a))) = target (valid ! a) \<and>
          visualAnalysis (newShot u c' ra (valid ! a)) = result_analysis ra \<and>
          actionPrompt (newShot u c' ra (valid ! a)) = result_prompt ra"
      using xy by (simp add: newShot_def)
    with i have 2: "\<exists>s \<in> set new.
                  Some (sourceImage s) = source (valid ! a) \<and>
                  Some (targetImage s) = target (valid ! a) \<and>
                  visualAnalysis s = result_analysis ra \<and> actionPrompt s = result_prompt ra"
      by blast
    from 1 2 3 show ?thesis by blast
  qed
  have img: "map (\<lambda>s. (Some (sourceImage s), Some (targetImage s))) new =
           map (\<lambda>p. (source p, target p)) (succeeded env 0 valid)"
    unfolding n using tr by (rule batchShots_images)
  have rep: "filter isReport log =
           (if onApiError env
            then map (\<lambda>err. OnApiError err ''Analysis'') (lefts (outcomes env 0 valid))
            else [])"
    unfolding lg by (cases "valid = []") (simp_all add: batchEvents_reports outcomes_def)
  have calls: "filter isCall log = concat (map (callsFor env) valid)"
    unfolding lg by (cases "valid = []") (simp_all add: batchEvents_calls)
  have ncalls: "length (filter isCall log) = length valid"
    unfolding calls using tr by (rule length_calls_valid)
  have allfail: "shots (project w') = shots (project w) \<and>
            pendingPairs w' =
              (if valid = [] then ?orig
               else map (\<lambda>p. if p \<in> set valid then p\<lparr>status := Error\<rparr> else p)
                      (filter (\<lambda>p. status p \<noteq> Completed) ?orig))"
    if af: "\<forall>k. k < length valid \<longrightarrow> isl (tryBlock env k (valid ! k))"
  proof (cases "valid = []")
    case True
    then show ?thesis by (simp add: w'_def valid_def processBatch_unfold)
  next
    case False
    let ?mark = "\<lambda>p. if p \<in> set valid then p\<lparr>status := Error\<rparr> else p"
    from af have "new = []" unfolding n by (intro batchShots_all_fail) simp
    then have sh: "shots (project w') = shots (project w)"
      by (simp add: w'_def shots_after n[symmetric, unfolded valid_def])
    have fp: "finalPair env valid 0 q = ?mark q" if qin: "q \<in> set ?orig" for q
    proof (cases "q \<in> set valid")
      case True
      then obtain j where j: "j < length valid" "valid ! j = q" by (auto simp: in_set_conv_nth)
      with af have "isl (tryBlock env j (valid ! j))" by blast
      then have "verdict (tryBlock env j (valid ! j)) = Error"
        by (cases "tryBlock env j (valid ! j)") simp_all
      with finalPair_in[OF dv j(1), of q env 0] j True show ?thesis by simp
    next
      case False
      have "id_pair q \<notin> id_pair ` set valid"
      proof
        assume "id_pair q \<in> id_pair ` set valid"
        then obtain v where v: "v \<in> set valid" "id_pair v = id_pair q" by auto
        with sub have "v \<in> set ?orig" by auto
        with d qin v(2) have "v = q" by (meson distinct_map inj_onD)
        with v False show False by simp
      qed
      with False show ?thesis by (simp add: finalPair_notin)
    qed
    then have m: "?fin = map ?mark ?orig" by simp
    have st: "(status (?mark q) \<noteq> Completed) = (status q \<noteq> Completed)" for q
      by (auto simp: valid_def validPairs_def)
    have k: "filter (\<lambda>p. status p \<noteq> Completed) ?fin =
               map ?mark (filter (\<lambda>p. status p \<noteq> Completed) ?orig)"
      unfolding m filter_map comp_def st ..
    from False obtain v where v: "v \<in> set valid" by (cases valid) auto
    with sub have "v \<in> set ?orig" "status v \<noteq> Completed"
      by (auto simp: valid_def validPairs_def)
    then have "filter (\<lambda>p. status p \<noteq> Completed) ?orig \<noteq> []"
      by (metis (mono_tags, lifting) empty_filter_conv)
    with k have "purgeCompleted uid ?fin = map ?mark (filter (\<lambda>p. status p \<noteq> Completed) ?orig)"
      by (simp add: purgeCompleted_def Let_def)
    with False pa[OF False] sh show ?thesis by simp
  qed
  from iso img rep calls ncalls allfail show ?thesis by blast
qed

theorem failure_isolated_witness:
  "distinct (map id_pair (pendingPairs (exampleWorld 5 []))) \<and>
   pendingPairs (processBatch exampleEnv (exampleWorld 5 [])) =
     [(examplePairs ! 1)\<lparr>status := Error\<rparr>, examplePairs ! 2] \<and>
   map sourceImage (shots (project (processBatch exampleEnv (exampleWorld 5 [])))) =
     [''data:image/png;base64,AAAA''] \<and>
   filter isReport (events (processBatch exampleEnv (exampleWorld 5 []))) =
     [OnApiError (Thrown ''503'') ''Analysis''] \<and>
   shots (project (processBatch failingEnv (exampleWorld 5 []))) = [] \<and>
   pendingPairs (processBatch failingEnv (exampleWorld 5 [])) =
     [(examplePairs ! 0)\<lparr>status := Error\<rparr>, (examplePairs ! 1)\<lparr>status := Error\<rparr>,
      examplePairs ! 2]"
proof -
  let ?w = "exampleWorld 5 []"
  have d: "distinct (map id_pair (pendingPairs ?w))"
    by (simp add: exampleWorld_def examplePairs_def)
  have v: "validPairs (pendingPairs ?w) = [examplePairs ! 0, examplePairs ! 1]"
    by (simp add: validPairs_def exampleWorld_def examplePairs_def)
  have f: "\<forall>k. k < length (validPairs (pendingPairs ?w)) \<longrightarrow>
             isl (tryBlock failingEnv k (validPairs (pendingPairs ?w) ! k))"
    unfolding v
    by (auto simp: less_Suc_eq numeral_2_eq_2 tryBlock_def analyse_def requestFor_def
        failingEnv_def exampleEnv_def examplePairs_def)
  have o: "tryBlock exampleEnv 0 (validPairs (pendingPairs ?w) ! 0) = Inr exampleResult"
    "tryBlock exampleEnv 1 (validPairs (pendingPairs ?w) ! 1) = Inl (Thrown ''503'')"
    unfolding v
    by (simp_all add: tryBlock_def analyse_def requestFor_def exampleEnv_def examplePairs_def)
  from failure_isolated[OF d, where env = failingEnv] f
  have 1: "shots (project (processBatch failingEnv ?w)) = shots (project ?w)"
    and 2: "pendingPairs (processBatch failingEnv ?w) =
      (if validPairs (pendingPairs ?w) = [] then pendingPairs ?w
       else map (\<lambda>p. if p \<in> set (validPairs (pendingPairs ?w)) then p\<lparr>status := Error\<rparr> else p)
          (filter (\<lambda>p. status p \<noteq> Completed) (pendingPairs ?w)))"
    by blast+
  have pre: "0 < length (validPairs (pendingPairs ?w)) \<and> 1 < length (validPairs (pendingPairs ?w)) \<and>
      tryBlock exampleEnv 0 (validPairs (pendingPairs ?w) ! 0) = Inr exampleResult \<and>
      tryBlock exampleEnv 1 (validPairs (pendingPairs ?w) ! 1) = Inl (Thrown ''503'')"
    using o by (simp add: v)
  note iso = failure_isolated[OF d, where env = exampleEnv, THEN conjunct1, rule_format, OF pre]
  then have 3: "(validPairs (pendingPairs ?w) ! 1)\<lparr>status := Error\<rparr> \<in> set (pendingPairs (processBatch exampleEnv ?w))"
    by blast
  have 4: "pendingPairs (processBatch exampleEnv ?w) = [(examplePairs ! 1)\<lparr>status := Error\<rparr>, examplePairs ! 2]"
    "map sourceImage (shots (project (processBatch exampleEnv ?w))) = [''data:image/png;base64,AAAA'']"
    "filter isReport (events (processBatch exampleEnv ?w)) = [OnApiError (Thrown ''503'') ''Analysis'']"
    by (simp_all add: example_defs jsAdd_safe)
  from 1 have 5: "shots (project (processBatch failingEnv ?w)) = []"
    by (simp add: exampleWorld_def)
  from 2 have 6: "pendingPairs (processBatch failingEnv ?w) =
     [(examplePairs ! 0)\<lparr>status := Error\<rparr>, (examplePairs ! 1)\<lparr>status := Error\<rparr>, examplePairs ! 2]"
    unfolding v by (simp add: exampleWorld_def examplePairs_def)
  from d 3 4 5 6 show ?thesis by simp
qed

text \<open>
  Without the optional callback a failure is not reported; and when every pair of the
  batch fails, a pair of the original list that was not in the batch (here the third,
  which has no target) is retained as it was, not marked \<open>Error\<close>.
\<close>

theorem failure_isolated_counterexample:
  "onApiError silentEnv = False \<and>
   outcomes silentEnv 0 (validPairs (pendingPairs (exampleWorld 5 []))) =
     [Inr exampleResult, Inl (Thrown ''503'')] \<and>
   filter isReport (events (processBatch silentEnv (exampleWorld 5 []))) = [] \<and>
   outcomes failingEnv 0 (validPairs (pendingPairs (exampleWorld 5 []))) =
     [Inl (Thrown ''offline''), Inl (Thrown ''offline'')] \<and>
   length (pendingPairs (processBatch failingEnv (exampleWorld 5 []))) = 3 \<and>
   status (pendingPairs (processBatch failingEnv (exampleWorld 5 [])) ! 2) = Idle"
  by (simp add: example_defs outcomes_def jsAdd_safe)

text \<open>
  Claim C9. Each shot of a batch takes its topic from the result parsed for it, and the
  fixed placeholder \<^verbatim>\<open>Sequence Segment\<close> when that result has no topic (or an empty
  one). A response without text is parsed as \<^verbatim>\<open>{}\<close>. One request is made for every
  qualifying pair, and every request made asks for an \<^verbatim>\<open>application/json\<close> response whose
  schema is an object with the required string fields topic, analysis and prompt.
\<close>

theorem empty_result_placeholder:
  fixes env :: env and w :: world
  defines "valid \<equiv> validPairs (pendingPairs w)"
    and "w' \<equiv> processBatch env w"
  defines "new \<equiv> drop (length (shots (project w))) (shots (project w'))"
    and "log \<equiv> drop (length (events w)) (events w')"
    and "results \<equiv> rights (outcomes env 0 valid)"
  shows "length new = length results \<and>
         (\<forall>j. j < length new \<and> \<not> truthy (result_topic (results ! j)) \<longrightarrow>
              topic (new ! j) = ''Sequence Segment'') \<and>
         (\<forall>j. j < length new \<and> truthy (result_topic (results ! j)) \<longrightarrow>
              Some (topic (new ! j)) = result_topic (results ! j)) \<and>
         (\<forall>k p req body.
              requestFor (styleDirective env) p = Inr req \<and>
              generateContent env k req = Inr body \<and> \<not> truthy body \<longrightarrow>
                analyse env k p = JSON_parse env ''{}'') \<and>
         length (requestsOf log) = length valid \<and>
         map responseMimeType (requestsOf log) = replicate (length valid) ''application/json'' \<and>
         map responseSchema (requestsOf log) =
           replicate (length valid)
             \<lparr>schema_type = OBJECT,
              properties = [(''topic'', STRING), (''analysis'', STRING), (''prompt'', STRING)],
              required = [''topic'', ''analysis'', ''prompt'']\<rparr> \<and>
         (\<forall>req. GenerateContent req \<in> set log \<longrightarrow>
              responseMimeType req = ''application/json'' \<and>
              schema_type (responseSchema req) = OBJECT \<and>
              properties (responseSchema req) =
                [(''topic'', STRING), (''analysis'', STRING), (''prompt'', STRING)] \<and>
              required (responseSchema req) = [''topic'', ''analysis'', ''prompt''])"
proof -
  have n: "new = batchShots env valid 0 (firstSequenceNumber (project w)) 0"
    by (simp add: new_def w'_def valid_def new_shots)
  have len: "length new = length results"
    unfolding n results_def by (rule length_batchShots_rights)
  have tp: "topic (new ! j) = orElse (result_topic (results ! j)) ''Sequence Segment''"
    if "j < length new" for j
  proof -
    have "map topic new ! j = map (\<lambda>r. orElse (result_topic r) ''Sequence Segment'') results ! j"
      unfolding n results_def by (simp only: batchShots_topics)
    with that len show ?thesis by simp
  qed
  have o1: "\<not> truthy x \<Longrightarrow> orElse x d = d" for x d
    by (cases x) auto
  have o2: "truthy x \<Longrightarrow> Some (orElse x d) = x" for x d
    by (cases x) auto
  have an: "analyse env k p = JSON_parse env ''{}''"
    if "requestFor (styleDirective env) p = Inr req" "generateContent env k req = Inr body"
       "\<not> truthy body" for k p req body
    using that by (simp add: analyse_def o1)
  have tr: "list_all (\<lambda>p. truthy (source p) \<and> truthy (target p)) valid"
    unfolding valid_def by (rule validPairs_truthy)
  have lg: "requestsOf log = requestsOf (batchEvents env valid 0)"
    by (simp add: log_def w'_def valid_def new_events requestsOf_append)
  note be = batchEvents_requestsOf[OF tr, of env 0]
  from be have nreq: "length (requestsOf log) = length valid"
    unfolding lg by simp
  have cfg: "responseMimeType req = ''application/json'' \<and>
             responseSchema req =
               \<lparr>schema_type = OBJECT,
                properties = [(''topic'', STRING), (''analysis'', STRING), (''prompt'', STRING)],
                required = [''topic'', ''analysis'', ''prompt'']\<rparr>"
    if "req \<in> set (requestsOf log)" for req
  proof -
    from be that obtain src tgt where "req = buildRequest (styleDirective env) src tgt"
      unfolding lg by blast
    then show ?thesis by (simp add: buildRequest_def Let_def)
  qed
  have mime: "map responseMimeType (requestsOf log) = replicate (length valid) ''application/json''"
    using map_const_replicate[of "requestsOf log" responseMimeType "''application/json''"] cfg
    unfolding nreq by blast
  have sch: "map responseSchema (requestsOf log) =
           replicate (length valid)
             \<lparr>schema_type = OBJECT,
              properties = [(''topic'', STRING), (''analysis'', STRING), (''prompt'', STRING)],
              required = [''topic'', ''analysis'', ''prompt'']\<rparr>"
    using map_const_replicate[of "requestsOf log" responseSchema] cfg
    unfolding nreq by blast
  have rq: "responseMimeType req = ''application/json'' \<and>
              schema_type (responseSchema req) = OBJECT \<and>
              properties (responseSchema req) =
                [(''topic'', STRING), (''analysis'', STRING), (''prompt'', STRING)] \<and>
              required (responseSchema req) = [''topic'', ''analysis'', ''prompt'']"
    if "GenerateContent req \<in> set log" for req
  proof -
    from that have "GenerateContent req \<in> set (batchEvents env valid 0)"
      by (auto simp: log_def w'_def valid_def new_events split: if_splits)
    from batchEvents_requests[OF this] show ?thesis
      by (auto simp: buildRequest_def Let_def)
  qed
  have t1: "\<forall>j. j < length new \<and> \<not> truthy (result_topic (results ! j)) \<longrightarrow>
              topic (new ! j) = ''Sequence Segment''"
    using tp by (simp add: o1)
  have t2: "\<forall>j. j < length new \<and> truthy (result_topic (results ! j)) \<longrightarrow>
              Some (topic (new ! j)) = result_topic (results ! j)"
    using tp by (simp add: o2)
  from len t1 t2 an nreq mime sch rq show ?thesis by blast
qed

theorem empty_result_placeholder_witness:
  "result_topic exampleResult = None \<and>
   map topic (shots (project (processBatch exampleEnv (exampleWorld 5 [])))) = [''Sequence Segment''] \<and>
   analyse exampleEnv 0 (examplePairs ! 0) = Inr (JValue exampleResult) \<and>
   map responseMimeType (requestsOf (events (processBatch exampleEnv (exampleWorld 5 [])))) =
     [''application/json'', ''application/json''] \<and>
   map (required \<circ> responseSchema) (requestsOf (events (processBatch exampleEnv (exampleWorld 5 [])))) =
     [[''topic'', ''analysis'', ''prompt''], [''topic'', ''analysis'', ''prompt'']]"
proof -
  let ?w = "exampleWorld 5 []"
  define new where "new = drop (length (shots (project ?w))) (shots (project (processBatch exampleEnv ?w)))"
  define log where "log = drop (length (events ?w)) (events (processBatch exampleEnv ?w))"
  note t = empty_result_placeholder[where w = "?w" and env = exampleEnv, folded new_def log_def]
  have v: "validPairs (pendingPairs ?w) = [examplePairs ! 0, examplePairs ! 1]"
    by (simp add: validPairs_def exampleWorld_def examplePairs_def)
  have o: "rights (outcomes exampleEnv 0 (validPairs (pendingPairs ?w))) = [exampleResult]"
    unfolding v
    by (simp add: outcomes_def tryBlock_def examplePairs_def analyse_def requestFor_def
        exampleEnv_def)
  have r: "result_topic exampleResult = None" by (simp add: exampleResult_def)
  from t have len: "length new = 1" unfolding o by simp
  from t have "\<forall>j. j < length new \<and> \<not> truthy (result_topic ([exampleResult] ! j)) \<longrightarrow>
              topic (new ! j) = ''Sequence Segment''" unfolding o by blast
  with len r have "topic (new ! 0) = ''Sequence Segment''" by simp
  with len have 1: "map topic new = [''Sequence Segment'']" by (cases new) simp_all
  have rq: "requestFor (styleDirective exampleEnv) (examplePairs ! 0) =
              Inr (buildRequest ''noir'' ''data:image/png;base64,AAAA'' ''data:image/png;base64,BBBB'')"
    by (simp add: requestFor_def exampleEnv_def examplePairs_def)
  have gc: "generateContent exampleEnv 0 (buildRequest ''noir'' ''data:image/png;base64,AAAA'' ''data:image/png;base64,BBBB'') = Inr None"
    by (simp add: exampleEnv_def)
  from t rq gc have "analyse exampleEnv 0 (examplePairs ! 0) = JSON_parse exampleEnv ''{}''"
    by (metis truthy.simps(1))
  then have 2: "analyse exampleEnv 0 (examplePairs ! 0) = Inr (JValue exampleResult)"
    by (simp add: exampleEnv_def)
  from t have 3: "map responseMimeType (requestsOf log) = [''application/json'', ''application/json'']"
    unfolding v by (simp add: numeral_2_eq_2)
  from t have "map responseSchema (requestsOf log) =
           replicate (length (validPairs (pendingPairs ?w)))
             \<lparr>schema_type = OBJECT,
              properties = [(''topic'', STRING), (''analysis'', STRING), (''prompt'', STRING)],
              required = [''topic'', ''analysis'', ''prompt'']\<rparr>"
    by blast
  then have "map required (map responseSchema (requestsOf log)) =
      [[''topic'', ''analysis'', ''prompt''], [''topic'', ''analysis'', ''prompt'']]"
    unfolding v by (simp add: numeral_2_eq_2)
  then have 4: "map (required \<circ> responseSchema) (requestsOf log) =
      [[''topic'', ''analysis'', ''prompt''], [''topic'', ''analysis'', ''prompt'']]"
    by simp
  have e: "events ?w = []" "shots (project ?w) = []" by (simp_all add: exampleWorld_def)
  from 1 2 3 4 r show ?thesis
    unfolding new_def log_def e by simp
qed

end
